theory Spec2Isabelle
  imports Complex_Main
begin

section \<open>Test automation platform: bundles, registry, runner, statistics, reports\<close>

text \<open>
  A shallow embedding of \<^verbatim>\<open>demo.py\<close>. Python strings are \<^typ>\<open>string\<close>, one
  \<^typ>\<open>char\<close> per Python character, written in the Windows-1252 code page (all non-ASCII
  characters of the source's literals belong to it), so that \<^const>\<open>length\<close> is Python's
  \<^verbatim>\<open>len\<close>. Python's \<^verbatim>\<open>int\<close> is \<^typ>\<open>int\<close>. Floating-point numbers are an
  abstract type \<open>'f\<close> whose operations are supplied by the runtime record below, and the
  clock and the random generator live in an abstract world \<open>'w\<close> that is threaded
  through every call that reads or advances them.
\<close>

subsection \<open>Strings\<close>

definition str_lower_char :: "char \<Rightarrow> char" where
  \<comment> \<open>\<^verbatim>\<open>str.lower()\<close> on one character of the Windows-1252 repertoire\<close>
  "str_lower_char c =
     (let n = (of_char c :: nat) in
      if (65 \<le> n \<and> n \<le> 90) \<or> (192 \<le> n \<and> n \<le> 222 \<and> n \<noteq> 215) then char_of (n + 32)
      else if n = 138 \<or> n = 140 \<or> n = 142 then char_of (n + 16)
      else if n = 159 then char_of (255 :: nat)
      else c)"

definition str_lower :: "string \<Rightarrow> string" where
  "str_lower s = map str_lower_char s"

definition str_replace_char :: "char \<Rightarrow> char \<Rightarrow> string \<Rightarrow> string" where
  \<comment> \<open>\<^verbatim>\<open>s.replace(old, new)\<close> for one-character \<^verbatim>\<open>old\<close> and \<^verbatim>\<open>new\<close>\<close>
  "str_replace_char old new s = map (\<lambda>c. if c = old then new else c) s"

definition digit_char :: "nat \<Rightarrow> char" where
  "digit_char n = ''0123456789'' ! n"

fun str_nat :: "nat \<Rightarrow> string" where
  "str_nat n = (if n < 10 then [digit_char n] else str_nat (n div 10) @ [digit_char (n mod 10)])"

declare str_nat.simps [simp del]

definition str_int :: "int \<Rightarrow> string" where
  \<comment> \<open>\<^verbatim>\<open>str(i)\<close> for an \<^verbatim>\<open>int\<close>\<close>
  "str_int i = (if i < 0 then ''-'' @ str_nat (nat (- i)) else str_nat (nat i))"

definition str_opt :: "string option \<Rightarrow> string" where
  \<comment> \<open>\<^verbatim>\<open>str(x)\<close> for an \<^verbatim>\<open>Optional[str]\<close>\<close>
  "str_opt x = (case x of None \<Rightarrow> ''None'' | Some s \<Rightarrow> s)"

subsection \<open>Core data\<close>

datatype TestStatus = PENDING | RUNNING | PASSED | FAILED | SKIPPED

fun status_value :: "TestStatus \<Rightarrow> string" where
  "status_value PENDING = ''pending''"
| "status_value RUNNING = ''running''"
| "status_value PASSED = ''passed''"
| "status_value FAILED = ''failed''"
| "status_value SKIPPED = ''skipped''"

record TestResult =
  name :: string
  description :: string
  status :: TestStatus
  duration_ms :: int
  details :: string
  url :: "string option"
  timestamp :: string
  error_message :: "string option"

text \<open>
  The dictionary built by \<^verbatim>\<open>TestResult.to_dict\<close>. Every key is present in a dictionary
  that \<^verbatim>\<open>to_dict\<close> returns; the entry \<open>d_url\<close> is \<open>None\<close> for a dictionary without
  the key \<^verbatim>\<open>'url'\<close>, \<open>Some None\<close> when the key holds Python's \<^verbatim>\<open>None\<close> and
  \<open>Some (Some u)\<close> when it holds the string \<open>u\<close>.
\<close>

record result_dict =
  d_name :: string
  d_description :: string
  d_status :: string
  d_duration_ms :: int
  d_details :: string
  d_url :: "string option option"
  d_timestamp :: string
  d_error_message :: "string option"

definition to_dict :: "TestResult \<Rightarrow> result_dict" where
  "to_dict r =
     \<lparr> d_name = name r, d_description = description r, d_status = status_value (status r),
       d_duration_ms = duration_ms r, d_details = details r, d_url = Some (url r),
       d_timestamp = timestamp r, d_error_message = error_message r \<rparr>"

text \<open>Configuration values (\<^verbatim>\<open>Any\<close>), with Python's truth value.\<close>

datatype pyval = PNone | PBool bool | PInt int | PStr string | PList "pyval list"

fun truthy :: "pyval \<Rightarrow> bool" where
  "truthy PNone = False"
| "truthy (PBool b) = b"
| "truthy (PInt i) = (i \<noteq> 0)"
| "truthy (PStr s) = (s \<noteq> [])"
| "truthy (PList vs) = (vs \<noteq> [])"

type_synonym config = "string \<rightharpoonup> pyval"

definition config_get :: "config \<Rightarrow> string \<Rightarrow> pyval" where
  \<comment> \<open>\<^verbatim>\<open>config.get(key)\<close>: \<^verbatim>\<open>None\<close> for a missing key\<close>
  "config_get cfg k = (case cfg k of None \<Rightarrow> PNone | Some v \<Rightarrow> v)"

record ConfigField =
  field_type :: string
  label :: string
  required :: bool
  default_value :: pyval
  placeholder :: "string option"
  help_text :: "string option"

record TestCase =
  tc_name :: string
  tc_description :: string
  test_function :: string
  success_message :: string
  failure_message :: string
  timeout_seconds :: int

text \<open>
  \<^verbatim>\<open>TestResult\<close> is a mutable dataclass, and \<^verbatim>\<open>execute_bundle\<close> keeps the objects that
  \<^verbatim>\<open>execute_test\<close> returns by reference: they are read only after the loop, by the
  statistics and by \<^verbatim>\<open>to_dict\<close>. A result object is therefore given by the fields it
  has in each world; an executor may keep an object it has returned and change it during a
  later call, or return the same object again.
\<close>

type_synonym 'w result_object = "'w \<Rightarrow> TestResult"

definition fresh :: "TestResult \<Rightarrow> 'w result_object" where
  \<comment> \<open>an object that nobody changes after its construction\<close>
  "fresh r = (\<lambda>w. r)"

text \<open>
  What awaiting \<^verbatim>\<open>execute_test\<close> does: it returns a result object, raises an
  \<^verbatim>\<open>Exception\<close> whose \<^verbatim>\<open>str\<close> is the given text, raises an exception that is not an
  \<^verbatim>\<open>Exception\<close> (\<^verbatim>\<open>asyncio.CancelledError\<close>, \<^verbatim>\<open>KeyboardInterrupt\<close>, \<^verbatim>\<open>SystemExit\<close>,
  given by the name of its class), or never completes. The first three leave a new world
  behind.
\<close>

datatype 'w awaited =
    Returned "'w result_object" 'w
  | Raised string 'w
  | Escaped string 'w
  | Never


text \<open>
  A bundle: its attributes, the values of \<^verbatim>\<open>get_config_schema()\<close> (a dictionary in
  insertion order) and \<^verbatim>\<open>get_test_cases()\<close>, and its \<^verbatim>\<open>execute_test\<close>.
\<close>

record 'w TestBundle =
  b_name :: string
  b_description :: string
  category :: string
  icon :: string
  version :: string
  get_config_schema :: "(string \<times> ConfigField) list"
  get_test_cases :: "TestCase list"
  execute_test :: "TestCase \<Rightarrow> config \<Rightarrow> 'w \<Rightarrow> 'w awaited"

text \<open>
  The runtime: \<^verbatim>\<open>time.time()\<close>, \<^verbatim>\<open>datetime.now().isoformat()\<close> and the float
  operations the runner uses.
\<close>

record ('w, 'f) runtime =
  time_time :: "'w \<Rightarrow> 'f \<times> 'w"
  now_isoformat :: "'w \<Rightarrow> string \<times> 'w"
  float_sub :: "'f \<Rightarrow> 'f \<Rightarrow> 'f"
  int_truediv :: "int \<Rightarrow> int \<Rightarrow> 'f"
  float_mul_int :: "'f \<Rightarrow> int \<Rightarrow> 'f"
  round2 :: "'f \<Rightarrow> 'f"
  float_str :: "'f \<Rightarrow> string"

datatype 'f pynum = PyInt int | PyFloat 'f

text \<open>
  The exceptions that leave a call: \<open>BaseException\<close> stands for an exception outside the
  class \<^verbatim>\<open>Exception\<close>, given by the name of its class.
\<close>

datatype error = ValueError string | AttributeError string | BaseException string

subsection \<open>TestBundle\<close>

definition error_result :: "TestCase \<Rightarrow> string \<Rightarrow> string \<Rightarrow> TestResult" where
  \<comment> \<open>the result built in the \<^verbatim>\<open>except\<close> branch; \<open>ts\<close> is the default timestamp\<close>
  "error_result test_case e ts =
     \<lparr> name = tc_name test_case, description = tc_description test_case, status = FAILED,
       duration_ms = 0, details = failure_message test_case, url = None,
       timestamp = ts, error_message = Some e \<rparr>"

fun execute_cases ::
  "('w, 'f) runtime \<Rightarrow> 'w TestBundle \<Rightarrow> config \<Rightarrow> TestCase list \<Rightarrow> 'w result_object list \<Rightarrow> 'w
     \<Rightarrow> ((error + 'w result_object list) \<times> 'w) option" where
  \<comment> \<open>the loop of \<^verbatim>\<open>execute_bundle\<close>; \<^verbatim>\<open>except Exception\<close> does not catch \<open>Escaped\<close>\<close>
  "execute_cases rt b cfg [] results w = Some (Inr results, w)"
| "execute_cases rt b cfg (test_case # rest) results w =
     (case execute_test b test_case cfg w of
        Returned result w' \<Rightarrow> execute_cases rt b cfg rest (results @ [result]) w'
      | Raised e w' \<Rightarrow>
          (case now_isoformat rt w' of
             (ts, w'') \<Rightarrow>
               execute_cases rt b cfg rest (results @ [fresh (error_result test_case e ts)]) w'')
      | Escaped e w' \<Rightarrow> Some (Inl (BaseException e), w')
      | Never \<Rightarrow> None)"

definition execute_bundle ::
  "('w, 'f) runtime \<Rightarrow> 'w TestBundle \<Rightarrow> config \<Rightarrow> 'w
     \<Rightarrow> ((error + 'w result_object list) \<times> 'w) option" where
  \<comment> \<open>\<open>Inl\<close>: the exception that leaves the coroutine; \<open>None\<close>: the coroutine never completes\<close>
  "execute_bundle rt b cfg w = execute_cases rt b cfg (get_test_cases b) [] w"

fun validate_fields :: "(string \<times> ConfigField) list \<Rightarrow> config \<Rightarrow> bool \<times> string option" where
  "validate_fields [] cfg = (True, None)"
| "validate_fields ((field_name, field_schema) # rest) cfg =
     (if required field_schema \<and> \<not> truthy (config_get cfg field_name)
      then (False, Some (''Required field '' @ [CHR 0x27] @ label field_schema @ [CHR 0x27] @ '' is missing''))
      else validate_fields rest cfg)"

definition validate_config :: "'w TestBundle \<Rightarrow> config \<Rightarrow> bool \<times> string option" where
  "validate_config b cfg = validate_fields (get_config_schema b) cfg"

record bundle_info =
  i_name :: string
  i_description :: string
  i_category :: string
  i_icon :: string
  i_version :: string
  i_test_count :: int

definition get_bundle_info :: "'w TestBundle \<Rightarrow> bundle_info" where
  "get_bundle_info b =
     \<lparr> i_name = b_name b, i_description = b_description b, i_category = category b,
       i_icon = icon b, i_version = version b, i_test_count = int (length (get_test_cases b)) \<rparr>"

subsection \<open>BundleRegistry\<close>

type_synonym 'w registry = "string \<rightharpoonup> 'w TestBundle"

definition bundle_id_of :: "string \<Rightarrow> string" where
  \<comment> \<open>\<^verbatim>\<open>bundle.name.lower().replace(' ', '_')\<close>\<close>
  "bundle_id_of n = str_replace_char (CHR '' '') (CHR ''_'') (str_lower n)"

definition register_bundle :: "'w registry \<Rightarrow> 'w TestBundle \<Rightarrow> 'w registry" where
  "register_bundle bundles bundle = bundles(bundle_id_of (b_name bundle) \<mapsto> bundle)"

definition get_bundle :: "'w registry \<Rightarrow> string \<Rightarrow> 'w TestBundle option" where
  "get_bundle bundles bundle_id = bundles bundle_id"

subsection \<open>TestRunner\<close>

record 'f statistics =
  total_tests :: int
  passed :: int
  failed :: int
  skipped :: int
  pass_rate :: "'f pynum"
  total_duration_ms :: int
  execution_time_seconds :: 'f

definition count_status :: "TestStatus \<Rightarrow> TestResult list \<Rightarrow> int" where
  \<comment> \<open>\<^verbatim>\<open>sum(1 for r in results if r.status == s)\<close>\<close>
  "count_status s results = sum_list (map (\<lambda>r. 1) (filter (\<lambda>r. status r = s) results))"

definition py_round2 :: "('w, 'f) runtime \<Rightarrow> 'f pynum \<Rightarrow> 'f pynum" where
  \<comment> \<open>\<^verbatim>\<open>round(x, 2)\<close>: an \<^verbatim>\<open>int\<close> is returned as it is\<close>
  "py_round2 rt x = (case x of PyInt i \<Rightarrow> PyInt i | PyFloat y \<Rightarrow> PyFloat (round2 rt y))"

definition calculate_statistics ::
  "('w, 'f) runtime \<Rightarrow> TestResult list \<Rightarrow> 'f \<Rightarrow> 'f statistics" where
  "calculate_statistics rt results execution_time =
     (let total = int (length results);
          n_passed = count_status PASSED results;
          n_failed = count_status FAILED results;
          n_skipped = count_status SKIPPED results;
          rate = (if total > 0 then PyFloat (float_mul_int rt (int_truediv rt n_passed total) 100)
                  else PyInt 0)
      in \<lparr> total_tests = total, passed = n_passed, failed = n_failed, skipped = n_skipped,
           pass_rate = py_round2 rt rate,
           total_duration_ms = sum_list (map duration_ms results),
           execution_time_seconds = round2 rt execution_time \<rparr>)"

record ('f) run_outcome =
  o_bundle_info :: bundle_info
  o_config :: config
  o_results :: "result_dict list"
  o_statistics :: "'f statistics"
  o_execution_time :: 'f

definition run_bundle ::
  "('w, 'f) runtime \<Rightarrow> 'w registry \<Rightarrow> string \<Rightarrow> config \<Rightarrow> 'w
     \<Rightarrow> ((error + 'f run_outcome) \<times> 'w) option" where
  \<comment> \<open>\<open>Inl\<close>: the exception raised; \<open>None\<close>: the coroutine never completes. The result
      objects are read in the world reached after the loop and the second \<^verbatim>\<open>time.time()\<close>.\<close>
  "run_bundle rt registry bundle_id cfg w =
     (case get_bundle registry bundle_id of
        None \<Rightarrow> Some (Inl (ValueError (''Bundle '' @ [CHR 0x27] @ bundle_id @ [CHR 0x27] @ '' not found'')), w)
      | Some bundle \<Rightarrow>
          (case validate_config bundle cfg of
             (False, error_msg) \<Rightarrow>
               Some (Inl (ValueError (''Invalid configuration: '' @ str_opt error_msg)), w)
           | (True, error_msg) \<Rightarrow>
               (case time_time rt w of
                  (start_time, w1) \<Rightarrow>
                    (case execute_bundle rt bundle cfg w1 of
                       None \<Rightarrow> None
                     | Some (Inl e, w2) \<Rightarrow> Some (Inl e, w2)
                     | Some (Inr objects, w2) \<Rightarrow>
                         (case time_time rt w2 of
                            (end_time, w3) \<Rightarrow>
                              (let execution_time = float_sub rt end_time start_time;
                                   results = map (\<lambda>object. object w3) objects;
                                   stats = calculate_statistics rt results execution_time
                               in Some (Inr \<lparr> o_bundle_info = get_bundle_info bundle,
                                               o_config = cfg,
                                               o_results = map to_dict results,
                                               o_statistics = stats,
                                               o_execution_time = execution_time \<rparr>, w3)))))))"

subsection \<open>ReportGenerator\<close>

definition str_join :: "string \<Rightarrow> string list \<Rightarrow> string" where
  \<comment> \<open>\<^verbatim>\<open>sep.join(xs)\<close>\<close>
  "str_join sep xs = (case xs of [] \<Rightarrow> [] | x # rest \<Rightarrow> x @ concat (map (\<lambda>y. sep @ y) rest))"

definition str_num :: "('w, 'f) runtime \<Rightarrow> 'f pynum \<Rightarrow> string" where
  \<comment> \<open>\<^verbatim>\<open>str(x)\<close> for a number\<close>
  "str_num rt x = (case x of PyInt i \<Rightarrow> str_int i | PyFloat y \<Rightarrow> float_str rt y)"

definition str_center :: "nat \<Rightarrow> string \<Rightarrow> string" where
  \<comment> \<open>\<^verbatim>\<open>s.center(width)\<close>: never shorter than \<open>s\<close>\<close>
  "str_center width s =
     (if width \<le> length s then s
      else (let marg = width - length s;
                left = marg div 2 + (if odd marg \<and> odd width then 1 else 0)
            in replicate left (CHR '' '') @ s @ replicate (marg - left) (CHR '' '')))"

definition str_ljust :: "nat \<Rightarrow> string \<Rightarrow> string" where
  \<comment> \<open>\<^verbatim>\<open>s.ljust(width)\<close>: never shorter than \<open>s\<close>\<close>
  "str_ljust width s = s @ replicate (width - length s) (CHR '' '')"









text \<open>
  The canvas. \<^verbatim>\<open>textwrap.wrap\<close> belongs to Python's library, not to this program: the
  renderer takes it as the parameter \<open>wrap\<close> (text and positive width to lines). What the
  call does before it reaches the wrapping itself is written out: \<^verbatim>\<open>None\<close> in place of
  the text has no \<^verbatim>\<open>expandtabs\<close>, and a width that is not positive is refused.
\<close>

type_synonym wrapper = "string \<Rightarrow> nat \<Rightarrow> string list"

definition textwrap_call :: "wrapper \<Rightarrow> string option \<Rightarrow> int \<Rightarrow> error + string list" where
  "textwrap_call wrap text w =
     (case text of
        None \<Rightarrow> Inl (AttributeError ([CHR 0x27] @ ''NoneType'' @ [CHR 0x27]
                       @ '' object has no attribute '' @ [CHR 0x27] @ ''expandtabs'' @ [CHR 0x27]))
      | Some t \<Rightarrow>
          if w \<le> 0 then Inl (ValueError (''invalid width '' @ str_int w @ '' (must be > 0)''))
          else Inr (wrap t (nat w)))"

definition canvas_width :: nat where
  "canvas_width = 70"

definition border :: string where
  "border = ''+'' @ replicate (canvas_width - 2) (CHR ''-'') @ ''+''"

definition center_line :: "string \<Rightarrow> string" where
  "center_line text = ''|'' @ str_center (canvas_width - 2) text @ ''|''"

definition wrap_block :: "wrapper \<Rightarrow> string \<Rightarrow> error + string list" where
  "wrap_block wrap text =
     (case textwrap_call wrap (Some text) (int canvas_width - 4) of
        Inl e \<Rightarrow> Inl e
      | Inr wrapped \<Rightarrow>
          Inr (map (\<lambda>line. ''| '' @ str_ljust (canvas_width - 4) line @ '' |'')
                 (if wrapped = [] then [''''] else wrapped)))"

definition wrap_lines :: "wrapper \<Rightarrow> string \<Rightarrow> string option \<Rightarrow> error + string list" where
  "wrap_lines wrap prefix content =
     (case textwrap_call wrap content (int canvas_width - int (length prefix) - 3) of
        Inl e \<Rightarrow> Inl e
      | Inr wrapped \<Rightarrow>
          (let wrapped = (if wrapped = [] then [''''] else wrapped);
               lines = [''| '' @ prefix
                          @ str_ljust (canvas_width - length prefix - 3) (hd wrapped) @ ''|'']
           in Inr (lines @
                   map (\<lambda>line. ''| '' @ replicate (length prefix) (CHR '' '')
                                 @ str_ljust (canvas_width - length prefix - 3) line @ ''|'')
                     (tl wrapped))))"

definition canvas_status :: "result_dict \<Rightarrow> string" where
  "canvas_status result =
     (if d_status result = ''passed'' then ''PASS''
      else if d_status result = ''failed'' then ''FAIL'' else ''SKIP'')"

definition result_get_url :: "result_dict \<Rightarrow> string option" where
  \<comment> \<open>\<^verbatim>\<open>result.get('url', 'n/a')\<close>: the default only for a dictionary without the key\<close>
  "result_get_url result = (case d_url result of None \<Rightarrow> Some ''n/a'' | Some v \<Rightarrow> v)"

definition canvas_result_lines :: "wrapper \<Rightarrow> result_dict \<Rightarrow> error + string list" where
  \<comment> \<open>what one round of the loop of \<^verbatim>\<open>generate_canvas_report\<close> appends\<close>
  "canvas_result_lines wrap result =
     (case wrap_lines wrap ''Detail: '' (Some (d_details result)) of
        Inl e \<Rightarrow> Inl e
      | Inr detail \<Rightarrow>
          (case wrap_lines wrap ''Link: '' (result_get_url result) of
             Inl e \<Rightarrow> Inl e
           | Inr link \<Rightarrow>
               Inr ([center_line (canvas_status result @ '' '' @ [CHR 0xE2, CHR 0x80, CHR 0xA2] @ '' ''
                                    @ d_name result)]
                    @ detail @ link @ [border])))"

fun canvas_results :: "wrapper \<Rightarrow> result_dict list \<Rightarrow> string list \<Rightarrow> error + string list" where
  "canvas_results wrap [] canvas = Inr canvas"
| "canvas_results wrap (result # rest) canvas =
     (case canvas_result_lines wrap result of
        Inl e \<Rightarrow> Inl e
      | Inr lines \<Rightarrow> canvas_results wrap rest (canvas @ lines))"

definition canvas_header :: "wrapper \<Rightarrow> ('w, 'f) runtime \<Rightarrow> 'f run_outcome \<Rightarrow> error + string list" where
  \<comment> \<open>the lines assembled before the loop\<close>
  "canvas_header wrap rt test_results =
     (let stats = o_statistics test_results; bundle_info = o_bundle_info test_results
      in case wrap_block wrap (i_description bundle_info) of
           Inl e \<Rightarrow> Inl e
         | Inr block \<Rightarrow>
             (case wrap_lines wrap ''Summary: ''
                     (Some (''Total='' @ str_int (total_tests stats)
                            @ '' Passed='' @ str_int (passed stats)
                            @ '' Failed='' @ str_int (failed stats)
                            @ '' Skipped='' @ str_int (skipped stats)
                            @ '' PassRate='' @ str_num rt (pass_rate stats) @ ''%'')) of
                Inl e \<Rightarrow> Inl e
              | Inr summary \<Rightarrow>
                  (case wrap_lines wrap ''Duration: ''
                          (Some (''Bundle execution '' @ float_str rt (execution_time_seconds stats)
                                 @ ''s / '' @ str_int (total_duration_ms stats) @ ''ms cumulative'')) of
                     Inl e \<Rightarrow> Inl e
                   | Inr duration \<Rightarrow>
                       Inr ([border, center_line (''Test Canvas: '' @ i_name bundle_info)]
                            @ block @ [border] @ summary @ duration @ [border]))))"

definition canvas_lines :: "wrapper \<Rightarrow> ('w, 'f) runtime \<Rightarrow> 'f run_outcome \<Rightarrow> error + string list" where
  \<comment> \<open>the list \<^verbatim>\<open>canvas\<close> at the end of \<^verbatim>\<open>generate_canvas_report\<close>\<close>
  "canvas_lines wrap rt test_results =
     (case canvas_header wrap rt test_results of
        Inl e \<Rightarrow> Inl e
      | Inr canvas \<Rightarrow> canvas_results wrap (o_results test_results) canvas)"

definition generate_canvas_report :: "wrapper \<Rightarrow> ('w, 'f) runtime \<Rightarrow> 'f run_outcome \<Rightarrow> error + string" where
  \<comment> \<open>\<open>Inl\<close>: the exception raised\<close>
  "generate_canvas_report wrap rt test_results =
     (case canvas_lines wrap rt test_results of
        Inl e \<Rightarrow> Inl e
      | Inr canvas \<Rightarrow> Inr (str_join [CHR 0x0A] canvas))"

fun str_split :: "char \<Rightarrow> string \<Rightarrow> string list" where
  \<comment> \<open>\<^verbatim>\<open>s.split(sep)\<close> for a one-character separator\<close>
  "str_split sep [] = [[]]"
| "str_split sep (c # s) =
     (if c = sep then [] # str_split sep s
      else (case str_split sep s of [] \<Rightarrow> [[c]] | l # ls \<Rightarrow> (c # l) # ls))"

subsection \<open>A model of \<^verbatim>\<open>textwrap.wrap\<close>\<close>

text \<open>
  Python's \<^verbatim>\<open>textwrap.wrap(text, width)\<close> with its default options, to instantiate the
  parameter \<open>wrap\<close> at concrete inputs: tabs are expanded, ASCII whitespace becomes
  spaces, the text is cut into chunks (runs of spaces and runs of other characters), and the
  chunks are laid out line by line, a chunk longer than the width being broken. The chunks
  of the library are those of this model for every text without a hyphen (the library
  splits hyphenated words further). \<open>wrap_chunks\<close> is called with a positive width only.
\<close>

definition py_isspace :: "char \<Rightarrow> bool" where
  \<comment> \<open>the characters that \<^verbatim>\<open>str.strip()\<close> removes\<close>
  "py_isspace c = (let n = (of_char c :: nat) in (9 \<le> n \<and> n \<le> 13) \<or> (28 \<le> n \<and> n \<le> 32) \<or> n = 160)"

definition ascii_whitespace :: "char \<Rightarrow> bool" where
  \<comment> \<open>tab, newline, vertical tab, form feed, carriage return, space\<close>
  "ascii_whitespace c = (c \<in> set [CHR 0x09, CHR 0x0A, CHR 0x0B, CHR 0x0C, CHR 0x0D, CHR '' ''])"

fun expandtabs :: "nat \<Rightarrow> nat \<Rightarrow> string \<Rightarrow> string" where
  "expandtabs tabsize col [] = []"
| "expandtabs tabsize col (c # s) =
     (if c = CHR 0x09 then
        (if tabsize > 0
         then replicate (tabsize - col mod tabsize) (CHR '' '')
                @ expandtabs tabsize (col + (tabsize - col mod tabsize)) s
         else expandtabs tabsize col s)
      else c # expandtabs tabsize (if c = CHR 0x0A \<or> c = CHR 0x0D then 0 else col + 1) s)"

definition munge_whitespace :: "string \<Rightarrow> string" where
  "munge_whitespace text =
     map (\<lambda>c. if ascii_whitespace c then CHR '' '' else c) (expandtabs 8 0 text)"

fun split_chunks :: "string \<Rightarrow> string list" where
  "split_chunks [] = []"
| "split_chunks [c] = [[c]]"
| "split_chunks (c # d # s) =
     (if (c = CHR '' '') = (d = CHR '' '')
      then (case split_chunks (d # s) of [] \<Rightarrow> [[c]] | r # rs \<Rightarrow> (c # r) # rs)
      else [c] # split_chunks (d # s))"

fun fill_line :: "nat \<Rightarrow> string list \<Rightarrow> nat \<Rightarrow> string list \<Rightarrow> string list \<times> nat \<times> string list" where
  "fill_line width cur_line cur_len [] = (cur_line, cur_len, [])"
| "fill_line width cur_line cur_len (chunk # chunks) =
     (if cur_len + length chunk \<le> width
      then fill_line width (cur_line @ [chunk]) (cur_len + length chunk) chunks
      else (cur_line, cur_len, chunk # chunks))"

definition rfind_char :: "char \<Rightarrow> string \<Rightarrow> nat \<Rightarrow> nat option" where
  "rfind_char c s e =
     (case filter (\<lambda>i. s ! i = c) (rev [0..<min e (length s)]) of [] \<Rightarrow> None | i # _ \<Rightarrow> Some i)"

definition handle_long_word ::
  "string list \<Rightarrow> string list \<Rightarrow> nat \<Rightarrow> nat \<Rightarrow> string list \<times> string list" where
  "handle_long_word reversed_chunks cur_line cur_len width =
     (let space_left = (if width < 1 then 1 else width - cur_len);
          chunk = hd reversed_chunks;
          e = (if length chunk > space_left
               then (case rfind_char (CHR ''-'') chunk space_left of
                       None \<Rightarrow> space_left
                     | Some hyphen \<Rightarrow>
                         if hyphen > 0 \<and> list_ex (\<lambda>c. c \<noteq> CHR ''-'') (take hyphen chunk)
                         then hyphen + 1 else space_left)
               else space_left)
      in (cur_line @ [take e chunk], drop e chunk # tl reversed_chunks))"

text \<open>One round of the outer loop of \<^verbatim>\<open>_wrap_chunks\<close>: the line and the chunks left.\<close>

definition wrap_line :: "nat \<Rightarrow> bool \<Rightarrow> string list \<Rightarrow> string list \<times> string list" where
  "wrap_line width started chunks =
     (let chunks1 = (if list_all py_isspace (hd chunks) \<and> started then tl chunks else chunks);
          (cur_line, cur_len, chunks2) = fill_line width [] 0 chunks1;
          (cur_line2, chunks3) =
             (if chunks2 \<noteq> [] \<and> length (hd chunks2) > width
              then handle_long_word chunks2 cur_line cur_len width
              else (cur_line, chunks2));
          cur_line3 = (if cur_line2 \<noteq> [] \<and> list_all py_isspace (last cur_line2)
                       then butlast cur_line2 else cur_line2)
      in (cur_line3, chunks3))"

definition chunks_size :: "string list \<Rightarrow> nat" where
  "chunks_size chunks = sum_list (map length chunks) + length chunks"

lemma fill_line_size:
  "fill_line width cur_line cur_len chunks = (cl, n, rest) \<Longrightarrow>
     chunks_size rest \<le> chunks_size chunks
     \<and> (chunks \<noteq> [] \<and> cur_len + length (hd chunks) \<le> width \<longrightarrow> chunks_size rest < chunks_size chunks)
     \<and> (\<not> (chunks \<noteq> [] \<and> cur_len + length (hd chunks) \<le> width) \<longrightarrow> rest = chunks \<and> n = cur_len \<and> cl = cur_line)"
proof (induction width cur_line cur_len chunks arbitrary: cl n rest rule: fill_line.induct)
  case (1 width cur_line cur_len)
  then show ?case by simp
next
  case (2 width cur_line cur_len chunk chunks)
  show ?case
  proof (cases "cur_len + length chunk \<le> width")
    case True
    with "2.prems" have "fill_line width (cur_line @ [chunk]) (cur_len + length chunk) chunks = (cl, n, rest)"
      by simp
    from "2.IH" [OF True this] True show ?thesis by (auto simp: chunks_size_def)
  next
    case False
    with "2.prems" show ?thesis by auto
  qed
qed

lemma wrap_line_size:
  assumes "chunks \<noteq> []" "0 < width"
  shows "chunks_size (snd (wrap_line width started chunks)) < chunks_size chunks"
proof -
  define chunks1 where "chunks1 = (if list_all py_isspace (hd chunks) \<and> started then tl chunks else chunks)"
  obtain cl n chunks2 where f: "fill_line width [] 0 chunks1 = (cl, n, chunks2)"
    by (cases "fill_line width [] 0 chunks1") auto
  note fs = fill_line_size [OF f]
  have c1: "chunks_size chunks1 \<le> chunks_size chunks"
    using assms by (cases chunks) (auto simp: chunks1_def chunks_size_def)
  have hl: "chunks_size (snd (handle_long_word chunks2 cl n width)) \<le> chunks_size chunks2"
    if "chunks2 \<noteq> []" using that
    by (cases chunks2) (auto simp: handle_long_word_def Let_def chunks_size_def split: option.splits)
  have res: "snd (wrap_line width started chunks) =
      (if chunks2 \<noteq> [] \<and> length (hd chunks2) > width then snd (handle_long_word chunks2 cl n width) else chunks2)"
    by (simp add: wrap_line_def Let_def chunks1_def [symmetric] f split: prod.splits)
  show ?thesis
  proof (cases "chunks1 = chunks")
    case False
    then have "chunks_size chunks1 < chunks_size chunks"
      using assms by (cases chunks) (auto simp: chunks1_def chunks_size_def split: if_splits)
    with fs hl res show ?thesis by (auto split: if_splits)
  next
    case True
    show ?thesis
    proof (cases "length (hd chunks) \<le> width")
      case le: True
      with fs True assms have "chunks_size chunks2 < chunks_size chunks" by simp
      with hl res show ?thesis by (auto split: if_splits)
    next
      case gt: False
      with fs True assms have e: "chunks2 = chunks" "n = 0" by auto
      obtain c cs where cc: "chunks = c # cs" using assms by (cases chunks) auto
      with gt have lc: "width < length c" by simp
      have "chunks_size (snd (handle_long_word chunks cl 0 width)) < chunks_size chunks"
        using lc assms(2)
        by (auto simp: cc handle_long_word_def Let_def chunks_size_def split: option.splits)
      with res e gt assms show ?thesis by simp
    qed
  qed
qed

function wrap_chunks :: "nat \<Rightarrow> string list \<Rightarrow> string list \<Rightarrow> string list" where
  "wrap_chunks width lines chunks =
     (if chunks = [] \<or> width = 0 then lines
      else (case wrap_line width (lines \<noteq> []) chunks of
              (cur_line, chunks') \<Rightarrow>
                wrap_chunks width (if cur_line \<noteq> [] then lines @ [concat cur_line] else lines) chunks'))"
  by pat_completeness auto
termination
  apply (relation "measure (\<lambda>(width, lines, chunks). chunks_size chunks)")
   apply simp
  apply (auto dest: sym)
  subgoal for width lines chunks x y
    using wrap_line_size [of chunks width "lines \<noteq> []"] by (metis snd_conv)
  done

declare wrap_chunks.simps [simp del]

definition textwrap_wrap :: "string \<Rightarrow> nat \<Rightarrow> string list" where
  "textwrap_wrap text width = wrap_chunks width [] (split_chunks (munge_whitespace text))"

text \<open>
  \<^verbatim>\<open>str.strip()\<close>, the normalised text from a given column on, and what it means for
  lines to be pieces of a text: the text consists of the lines, in their order, with nothing
  but whitespace before, between and after them.
\<close>

definition str_strip :: "string \<Rightarrow> string" where
  "str_strip s = rev (dropWhile py_isspace (rev (dropWhile py_isspace s)))"

definition munge_from :: "nat \<Rightarrow> string \<Rightarrow> string" where
  \<comment> \<open>\<open>munge_whitespace\<close> of a text that starts in column \<open>col\<close>\<close>
  "munge_from col s = map (\<lambda>c. if ascii_whitespace c then CHR '' '' else c) (expandtabs 8 col s)"

fun pieces :: "string \<Rightarrow> string list \<Rightarrow> bool" where
  "pieces t [] = list_all py_isspace t"
| "pieces t (l # ls) =
     list_ex (\<lambda>n. list_all py_isspace (take n t) \<and> take (length l) (drop n t) = l
                 \<and> pieces (drop (n + length l) t) ls) [0..<Suc (length t)]"

text \<open>
  What the canvas relies on of \<^verbatim>\<open>textwrap.wrap\<close>, for any text and positive width: no
  line is longer than the width, no line contains a newline, and the lines are pieces of
  the text with its tabs expanded and its whitespace turned into spaces (nothing is dropped
  but whitespace at the breaks, and nothing is added or reordered).
\<close>

definition textwrap_contract :: "wrapper \<Rightarrow> bool" where
  "textwrap_contract wrap =
     (\<forall>text width. 0 < width \<longrightarrow>
        (\<forall>l \<in> set (wrap text width). length l \<le> width \<and> CHR 0x0A \<notin> set l)
        \<and> pieces (munge_whitespace text) (wrap text width))"

definition line_ok :: "string \<Rightarrow> bool" where
  \<comment> \<open>a line of the canvas: 70 characters, none of them a newline\<close>
  "line_ok l = (length l = 70 \<and> CHR 0x0A \<notin> set l)"

subsection \<open>Concrete inputs\<close>

text \<open>
  A runtime over exact real arithmetic whose world is a clock in seconds, and a few bundles,
  used to evaluate the definitions at concrete inputs.
\<close>

definition real_str :: "real \<Rightarrow> string" where
  \<comment> \<open>decimal notation of a non-negative number with at most two decimals\<close>
  "real_str x =
     (let h = nat \<lfloor>(x - of_int \<lfloor>x\<rfloor>) * 100\<rfloor>
      in str_int \<lfloor>x\<rfloor> @ ''.'' @
         (if h mod 10 = 0 then str_nat (h div 10) else str_nat (h div 10) @ str_nat (h mod 10)))"

definition demo_runtime :: "(nat, real) runtime" where
  "demo_runtime =
     \<lparr> time_time = (\<lambda>w. (of_nat w, w)),
       now_isoformat = (\<lambda>w. (''T'' @ str_nat w, w)),
       float_sub = (\<lambda>x y. x - y),
       int_truediv = (\<lambda>a b. of_int a / of_int b),
       float_mul_int = (\<lambda>x i. x * of_int i),
       round2 = (\<lambda>x. of_int \<lfloor>x * 100 + 1 / 2\<rfloor> / 100),
       float_str = real_str \<rparr>"

definition check_a :: TestCase where
  "check_a = \<lparr> tc_name = ''Check A'', tc_description = ''first check'', test_function = ''test_a'',
      success_message = ''A is fine'', failure_message = ''A is broken'', timeout_seconds = 30 \<rparr>"

definition check_b :: TestCase where
  "check_b = \<lparr> tc_name = ''Check B'', tc_description = ''second check'', test_function = ''test_b'',
      success_message = ''B is fine'', failure_message = ''B is broken'', timeout_seconds = 30 \<rparr>"

definition url_field :: ConfigField where
  "url_field = \<lparr> field_type = ''url'', label = ''Website URL'', required = True,
      default_value = PStr ''https://example.com'', placeholder = None, help_text = None \<rparr>"

definition passing :: "TestCase \<Rightarrow> nat \<Rightarrow> TestResult" where
  "passing tc w = \<lparr> name = tc_name tc, description = tc_description tc, status = PASSED,
      duration_ms = 1000, details = success_message tc, url = Some ''https://example.com/t'',
      timestamp = ''T'' @ str_nat w, error_message = None \<rparr>"

definition sample_suite :: "nat TestBundle" where
  "sample_suite =
     \<lparr> b_name = ''Sample Suite'', b_description = ''two checks'', category = ''general'',
       icon = ''test'', version = ''1.0.0'',
       get_config_schema = [(''base_url'', url_field)],
       get_test_cases = [check_a, check_b],
       execute_test = (\<lambda>tc cfg w. if tc_name tc = ''Check A'' then Returned (fresh (passing tc w)) (w + 1)
                                  else Raised ''boom'' (w + 2)) \<rparr>"

definition sample_config :: config where
  "sample_config = [''base_url'' \<mapsto> PStr ''https://shop.example'']"

definition renaming_bundle :: "nat TestBundle" where
  "renaming_bundle =
     \<lparr> b_name = ''Renaming Suite'', b_description = ''results under another name'',
       category = ''general'', icon = ''test'', version = ''1.0.0'',
       get_config_schema = [],
       get_test_cases = [check_a],
       execute_test = (\<lambda>tc cfg w. Returned (fresh ((passing tc w)\<lparr>name := ''Other''\<rparr>)) (w + 1)) \<rparr>"

definition slow_bundle :: "nat TestBundle" where
  \<comment> \<open>the world is the clock in seconds: the first check takes 100 seconds, the second never completes\<close>
  "slow_bundle =
     \<lparr> b_name = ''Slow Suite'', b_description = ''checks that take long'',
       category = ''general'', icon = ''test'', version = ''1.0.0'',
       get_config_schema = [],
       get_test_cases = [check_a, check_b],
       execute_test = (\<lambda>tc cfg w. if tc_name tc = ''Check A'' then Returned (fresh (passing tc w)) (w + 100)
                                  else Never) \<rparr>"

definition cancelled_bundle :: "nat TestBundle" where
  \<comment> \<open>the second check raises \<^verbatim>\<open>asyncio.CancelledError\<close>, which is not an \<^verbatim>\<open>Exception\<close>\<close>
  "cancelled_bundle =
     \<lparr> b_name = ''Cancelled Suite'', b_description = ''a check that is cancelled'',
       category = ''general'', icon = ''test'', version = ''1.0.0'',
       get_config_schema = [],
       get_test_cases = [check_a, check_b],
       execute_test = (\<lambda>tc cfg w. if tc_name tc = ''Check A'' then Returned (fresh (passing tc w)) (w + 1)
                                  else Escaped ''CancelledError'' (w + 2)) \<rparr>"

definition hanging_bundle :: "nat TestBundle" where
  \<comment> \<open>the first check raises an \<^verbatim>\<open>Exception\<close>, the second never completes\<close>
  "hanging_bundle =
     \<lparr> b_name = ''Hanging Suite'', b_description = ''a check that hangs'',
       category = ''general'', icon = ''test'', version = ''1.0.0'',
       get_config_schema = [],
       get_test_cases = [check_a, check_b],
       execute_test = (\<lambda>tc cfg w. if tc_name tc = ''Check A'' then Raised ''boom'' (w + 1)
                                  else Never) \<rparr>"

definition pending_result :: TestResult where
  "pending_result = \<lparr> name = ''Check A'', description = ''first check'', status = PENDING,
      duration_ms = 0, details = '''', url = None, timestamp = ''T0'', error_message = None \<rparr>"

definition demo_registry :: "nat registry" where
  "demo_registry =
     register_bundle (register_bundle (register_bundle (register_bundle (register_bundle Map.empty
       sample_suite) renaming_bundle) slow_bundle) cancelled_bundle) hanging_bundle"

definition skipped_result :: TestResult where
  "skipped_result = \<lparr> name = ''Check C'', description = ''third check'', status = SKIPPED,
      duration_ms = 0, details = ''C was skipped'', url = Some ''https://example.com/c'',
      timestamp = ''T9'', error_message = None \<rparr>"

definition sample_outcome :: "real run_outcome" where
  "sample_outcome =
     \<lparr> o_bundle_info =
         \<lparr> i_name = ''Sample Suite'',
           i_description = ''Complete checkout process testing including cart, payment, and confirmation'',
           i_category = ''general'', i_icon = ''test'', i_version = ''1.0.0'', i_test_count = 2 \<rparr>,
       o_config = sample_config,
       o_results = map to_dict [passing check_a 5, skipped_result],
       o_statistics = \<lparr> total_tests = 2, passed = 1, failed = 0, skipped = 1, pass_rate = PyFloat 50,
           total_duration_ms = 1000, execution_time_seconds = 3 \<rparr>,
       o_execution_time = 3 \<rparr>"

definition api_outcome :: "real run_outcome" where
  \<comment> \<open>an outcome of the bundle \<^verbatim>\<open>APIHealthBundle\<close> of the source\<close>
  "api_outcome =
     sample_outcome\<lparr>o_bundle_info :=
       \<lparr> i_name = ''API Health Checks'',
         i_description = ''Monitor API endpoint availability, response times, and status codes'',
         i_category = ''api'', i_icon = ''activity'', i_version = ''1.0.0'', i_test_count = 2 \<rparr>\<rparr>"

definition failed_outcome :: "real run_outcome" where
  "failed_outcome = sample_outcome\<lparr>o_results := map to_dict [passing check_a 5, error_result check_b ''boom'' ''T8'']\<rparr>"

section \<open>Properties\<close>

subsection \<open>Auxiliary facts\<close>

lemma count_status_Cons:
  "count_status s (r # rs) = (if status r = s then 1 else 0) + count_status s rs"
  by (simp add: count_status_def)

lemma count_status_Nil: "count_status s [] = 0"
  by (simp add: count_status_def)

lemma count_status_total:
  "count_status PASSED rs + count_status FAILED rs + count_status SKIPPED rs
     + count_status PENDING rs + count_status RUNNING rs = int (length rs)"
proof (induction rs)
  case Nil
  show ?case by (simp add: count_status_Nil)
next
  case (Cons r rs)
  then show ?case by (cases "status r") (simp_all add: count_status_Cons)
qed













lemma error_result_timeout [simp]:
  "error_result (tc\<lparr>timeout_seconds := t\<rparr>) e ts = error_result tc e ts"
  by (simp add: error_result_def)

lemma execute_cases_timeout:
  assumes "\<And>tc w. execute_test b (tc\<lparr>timeout_seconds := t\<rparr>) cfg w = execute_test b tc cfg w"
  shows "execute_cases rt b cfg (map (\<lambda>tc. tc\<lparr>timeout_seconds := t\<rparr>) cases) acc w
           = execute_cases rt b cfg cases acc w"
  by (induction cases arbitrary: acc w)
     (simp_all add: assms split: awaited.splits prod.splits)

lemma id_sample: "bundle_id_of ''Sample Suite'' = ''sample_suite''" by code_simp

lemma id_renaming: "bundle_id_of ''Renaming Suite'' = ''renaming_suite''" by code_simp

lemma id_slow: "bundle_id_of ''Slow Suite'' = ''slow_suite''" by code_simp

lemma id_cancelled: "bundle_id_of ''Cancelled Suite'' = ''cancelled_suite''" by code_simp

lemma id_hanging: "bundle_id_of ''Hanging Suite'' = ''hanging_suite''" by code_simp

lemma demo_registry_eq:
  "demo_registry = [''sample_suite'' \<mapsto> sample_suite, ''renaming_suite'' \<mapsto> renaming_bundle,
      ''slow_suite'' \<mapsto> slow_bundle, ''cancelled_suite'' \<mapsto> cancelled_bundle,
      ''hanging_suite'' \<mapsto> hanging_bundle]"
  by (simp add: demo_registry_def register_bundle_def id_sample id_renaming id_slow id_cancelled
      id_hanging sample_suite_def renaming_bundle_def slow_bundle_def cancelled_bundle_def
      hanging_bundle_def)



lemma get_slow: "get_bundle demo_registry ''slow_suite'' = Some slow_bundle"
  by (simp add: demo_registry_eq get_bundle_def)







lemma fill_line_sum:
  "fill_line width cur_line cur_len chunks = (cl, n, rest) \<Longrightarrow>
     sum_list (map length cur_line) = cur_len \<Longrightarrow> cur_len \<le> width \<Longrightarrow>
     sum_list (map length cl) = n \<and> n \<le> width \<and> concat cl @ concat rest = concat cur_line @ concat chunks"
proof (induction width cur_line cur_len chunks arbitrary: cl n rest rule: fill_line.induct)
  case (1 width cur_line cur_len)
  then show ?case by auto
next
  case (2 width cur_line cur_len chunk chunks)
  show ?case
  proof (cases "cur_len + length chunk \<le> width")
    case True
    with "2.prems" have "fill_line width (cur_line @ [chunk]) (cur_len + length chunk) chunks = (cl, n, rest)"
      by simp
    from "2.IH" [OF True this] "2.prems" True show ?thesis by simp
  next
    case False
    with "2.prems" show ?thesis by auto
  qed
qed

lemma rfind_char_less: "rfind_char c s e = Some i \<Longrightarrow> i < e"
proof -
  assume a: "rfind_char c s e = Some i"
  then obtain rest where "filter (\<lambda>i. s ! i = c) (rev [0..<min e (length s)]) = i # rest"
    by (auto simp: rfind_char_def split: list.splits)
  then have "i \<in> set (filter (\<lambda>i. s ! i = c) (rev [0..<min e (length s)]))" by simp
  then show ?thesis by auto
qed

lemma handle_long_word_sum:
  assumes "handle_long_word chunks cur_line cur_len width = (cl, rest)"
    and "chunks \<noteq> []" and "sum_list (map length cur_line) = cur_len" and "cur_len \<le> width" and "0 < width"
  shows "sum_list (map length cl) \<le> width \<and> concat cl @ concat rest = concat cur_line @ concat chunks"
proof -
  obtain c cs where cc: "chunks = c # cs" using assms(2) by (cases chunks) auto
  define e where "e = (if length c > width - cur_len
               then (case rfind_char (CHR ''-'') c (width - cur_len) of
                       None \<Rightarrow> width - cur_len
                     | Some hyphen \<Rightarrow>
                         if hyphen > 0 \<and> list_ex (\<lambda>c. c \<noteq> CHR ''-'') (take hyphen c)
                         then hyphen + 1 else width - cur_len)
               else width - cur_len)"
  have e: "e \<le> width - cur_len"
    by (auto simp: e_def split: option.splits dest: rfind_char_less)
  have "cl = cur_line @ [take e c]" "rest = drop e c # cs"
    using assms(1,5) by (auto simp: handle_long_word_def cc Let_def e_def)
  with e assms(3,4) show ?thesis by (simp add: cc)
qed

lemma filter_space_chunk: "list_all py_isspace chunk \<Longrightarrow> filter (\<lambda>c. \<not> py_isspace c) chunk = []"
  by (induction chunk) auto

lemma wrap_line_sum:
  assumes "wrap_line width started chunks = (cl, rest)" and "chunks \<noteq> []" and "0 < width"
  shows "length (concat cl) \<le> width
     \<and> filter (\<lambda>c. \<not> py_isspace c) (concat cl) @ filter (\<lambda>c. \<not> py_isspace c) (concat rest)
         = filter (\<lambda>c. \<not> py_isspace c) (concat chunks)
     \<and> set (concat cl) \<union> set (concat rest) \<subseteq> set (concat chunks)"
proof -
  let ?P = "\<lambda>c. \<not> py_isspace c"
  define chunks1 where "chunks1 = (if list_all py_isspace (hd chunks) \<and> started then tl chunks else chunks)"
  obtain c1 n chunks2 where f: "fill_line width [] 0 chunks1 = (c1, n, chunks2)"
    by (cases "fill_line width [] 0 chunks1") auto
  from fill_line_sum [OF f] have fs: "sum_list (map length c1) = n" "n \<le> width"
    "concat c1 @ concat chunks2 = concat chunks1" by auto
  define p where "p = (if chunks2 \<noteq> [] \<and> length (hd chunks2) > width
              then handle_long_word chunks2 c1 n width else (c1, chunks2))"
  obtain c2 chunks3 where p: "p = (c2, chunks3)" by (cases p) auto
  have ps: "sum_list (map length c2) \<le> width \<and> concat c2 @ concat chunks3 = concat c1 @ concat chunks2"
  proof (cases "chunks2 \<noteq> [] \<and> length (hd chunks2) > width")
    case True
    with p have "handle_long_word chunks2 c1 n width = (c2, chunks3)" by (simp add: p_def)
    from handle_long_word_sum [OF this _ fs(1) fs(2) assms(3)] True show ?thesis by simp
  next
    case False
    with p fs show ?thesis by (auto simp: p_def)
  qed
  define c3 where "c3 = (if c2 \<noteq> [] \<and> list_all py_isspace (last c2) then butlast c2 else c2)"
  have res: "cl = c3" "rest = chunks3"
    using assms(1) by (simp_all add: wrap_line_def Let_def chunks1_def [symmetric] f p_def [symmetric] p c3_def)
  have len3: "sum_list (map length c3) \<le> sum_list (map length c2)"
    by (cases c2 rule: rev_cases) (auto simp: c3_def)
  have f3: "filter ?P (concat c3) = filter ?P (concat c2)"
    by (cases c2 rule: rev_cases) (auto simp: c3_def filter_space_chunk)
  have f1: "filter ?P (concat chunks1) = filter ?P (concat chunks)"
    using assms(2) by (cases chunks) (auto simp: chunks1_def filter_space_chunk)
  have "filter ?P (concat c2) @ filter ?P (concat chunks3) = filter ?P (concat c2 @ concat chunks3)"
    by simp
  also have "\<dots> = filter ?P (concat chunks1)" using ps fs(3) by simp
  finally have "filter ?P (concat c3) @ filter ?P (concat chunks3) = filter ?P (concat chunks)"
    using f3 f1 by simp
  moreover have "length (concat c3) \<le> width"
    using len3 ps by (simp add: length_concat)
  moreover have "set (concat c3) \<union> set (concat chunks3) \<subseteq> set (concat chunks)"
  proof -
    have "set (concat c3) \<subseteq> set (concat c2)"
      by (cases c2 rule: rev_cases) (auto simp: c3_def)
    moreover have "set (concat c2) \<union> set (concat chunks3) = set (concat chunks1)"
      using ps fs(3) by (metis set_append)
    moreover have "set (concat chunks1) \<subseteq> set (concat chunks)"
      using assms(2) by (cases chunks) (auto simp: chunks1_def)
    ultimately show ?thesis by blast
  qed
  ultimately show ?thesis using res by simp
qed

lemma wrap_chunks_width:
  "0 < width \<Longrightarrow> \<forall>l \<in> set lines. length l \<le> width \<Longrightarrow>
     \<forall>l \<in> set (wrap_chunks width lines chunks). length l \<le> width"
proof (induction width lines chunks rule: wrap_chunks.induct)
  case (1 width lines chunks)
  show ?case
  proof (cases "chunks = []")
    case True
    with "1.prems" show ?thesis by (subst wrap_chunks.simps) simp
  next
    case False
    obtain cl rest where w: "wrap_line width (lines \<noteq> []) chunks = (cl, rest)"
      by (cases "wrap_line width (lines \<noteq> []) chunks") auto
    define lines' where "lines' = (if cl \<noteq> [] then lines @ [concat cl] else lines)"
    from wrap_line_sum [OF w False "1.prems"(1)] have l: "length (concat cl) \<le> width" by simp
    have nz: "\<not> (chunks = [] \<or> width = 0)" using False "1.prems"(1) by simp
    have b: "\<forall>l \<in> set lines'. length l \<le> width"
      using "1.prems"(2) l by (simp add: lines'_def)
    have "\<forall>l \<in> set (wrap_chunks width lines' rest). length l \<le> width"
      unfolding lines'_def
      by (rule "1.IH" [OF nz w [symmetric] "1.prems"(1)]) (use b in \<open>simp only: lines'_def\<close>)
    moreover have "wrap_chunks width lines chunks = wrap_chunks width lines' rest"
      using nz w by (subst wrap_chunks.simps) (simp add: lines'_def)
    ultimately show ?thesis by simp
  qed
qed

lemma split_chunks_Nil: "split_chunks s = [] \<longleftrightarrow> s = []"
  by (induction s rule: split_chunks.induct) (auto split: list.splits)

lemma concat_split_chunks: "concat (split_chunks s) = s"
  by (induction s rule: split_chunks.induct) (auto simp: split_chunks_Nil split: list.splits)

lemma ascii_whitespace_isspace: "ascii_whitespace c \<Longrightarrow> py_isspace c"
  by (auto simp: ascii_whitespace_def py_isspace_def)

lemma isspace_space: "py_isspace (CHR '' '')"
  by (simp add: py_isspace_def)

lemma isspace_tab: "py_isspace (CHR 0x09)"
  by (simp add: py_isspace_def)

lemma wrap_chunks_set:
  "0 < width \<Longrightarrow>
     set (concat (wrap_chunks width lines chunks)) \<subseteq> set (concat lines) \<union> set (concat chunks)"
proof (induction width lines chunks rule: wrap_chunks.induct)
  case (1 width lines chunks)
  show ?case
  proof (cases "chunks = []")
    case True
    then show ?thesis by (subst wrap_chunks.simps) simp
  next
    case False
    obtain cl rest where w: "wrap_line width (lines \<noteq> []) chunks = (cl, rest)"
      by (cases "wrap_line width (lines \<noteq> []) chunks") auto
    define lines' where "lines' = (if cl \<noteq> [] then lines @ [concat cl] else lines)"
    have nz: "\<not> (chunks = [] \<or> width = 0)" using False "1.prems"(1) by simp
    from wrap_line_sum [OF w False "1.prems"(1)]
    have c: "set (concat cl) \<union> set (concat rest) \<subseteq> set (concat chunks)" by simp
    have same: "wrap_chunks width lines chunks = wrap_chunks width lines' rest"
      using nz w by (subst wrap_chunks.simps) (simp add: lines'_def)
    have "set (concat (wrap_chunks width lines' rest)) \<subseteq> set (concat lines') \<union> set (concat rest)"
      unfolding lines'_def by (rule "1.IH" [OF nz w [symmetric] "1.prems"(1)])
    moreover have "set (concat lines') \<subseteq> set (concat lines) \<union> set (concat cl)"
      by (simp add: lines'_def)
    ultimately have "set (concat (wrap_chunks width lines' rest)) \<subseteq> set (concat lines) \<union> set (concat chunks)"
      using c by blast
    then show ?thesis by (simp only: same)
  qed
qed

lemma munge_whitespace_newline: "CHR 0x0A \<notin> set (munge_whitespace text)"
  by (auto simp: munge_whitespace_def ascii_whitespace_def)

lemma textwrap_wrap_newline:
  "0 < width \<Longrightarrow> l \<in> set (textwrap_wrap text width) \<Longrightarrow> CHR 0x0A \<notin> set l"
  using wrap_chunks_set [of width "[]" "split_chunks (munge_whitespace text)"]
    munge_whitespace_newline [of "text"]
  by (auto simp: textwrap_wrap_def concat_split_chunks)

lemma textwrap_wrap_width:
  "0 < width \<Longrightarrow> l \<in> set (textwrap_wrap text width) \<Longrightarrow> length l \<le> width"
  using wrap_chunks_width [of width "[]" "split_chunks (munge_whitespace text)"]
  by (simp add: textwrap_wrap_def)

lemma pieces_Cons_iff:
  "pieces t (l # ls) \<longleftrightarrow> (\<exists>g t'. t = g @ l @ t' \<and> list_all py_isspace g \<and> pieces t' ls)"
proof
  assume "pieces t (l # ls)"
  then obtain n where n: "list_all py_isspace (take n t)" "take (length l) (drop n t) = l"
      "pieces (drop (n + length l) t) ls"
    unfolding pieces.simps(2) list_ex_iff by blast
  have "take (length l) (drop n t) @ drop (length l) (drop n t) = drop n t"
    by (rule append_take_drop_id)
  then have "l @ drop (n + length l) t = drop n t" by (simp add: n(2) add.commute)
  then have "take n t @ l @ drop (n + length l) t = take n t @ drop n t" by simp
  then have "t = take n t @ l @ drop (n + length l) t" by simp
  with n show "\<exists>g t'. t = g @ l @ t' \<and> list_all py_isspace g \<and> pieces t' ls" by blast
next
  assume "\<exists>g t'. t = g @ l @ t' \<and> list_all py_isspace g \<and> pieces t' ls"
  then obtain g t' where g: "t = g @ l @ t'" "list_all py_isspace g" "pieces t' ls" by blast
  have "length g \<in> set [0..<Suc (length t)]" by (simp add: g(1))
  moreover have "list_all py_isspace (take (length g) t) \<and> take (length l) (drop (length g) t) = l
                 \<and> pieces (drop (length g + length l) t) ls"
    using g by simp
  ultimately show "pieces t (l # ls)" unfolding pieces.simps list_ex_iff by blast
qed

declare pieces.simps(2) [simp del]

lemma pieces_snoc:
  "pieces t ls \<Longrightarrow> list_all py_isspace g1 \<Longrightarrow> list_all py_isspace g2 \<Longrightarrow>
     pieces (t @ g1 @ l @ g2) (ls @ [l])"
proof (induction ls arbitrary: t)
  case Nil
  then have "list_all py_isspace (t @ g1)" by simp
  moreover have "pieces g2 []" using Nil by simp
  ultimately have "pieces ((t @ g1) @ l @ g2) [l]" unfolding pieces_Cons_iff by blast
  then show ?case by simp
next
  case (Cons x ls)
  from Cons.prems(1) obtain g t' where g: "t = g @ x @ t'" "list_all py_isspace g" "pieces t' ls"
    unfolding pieces_Cons_iff by blast
  from Cons.IH [OF g(3) Cons.prems(2,3)] have "pieces (t' @ g1 @ l @ g2) (ls @ [l])" .
  with g(2) have "pieces (g @ x @ (t' @ g1 @ l @ g2)) (x # (ls @ [l]))"
    unfolding pieces_Cons_iff by blast
  then show ?case by (simp add: g(1))
qed

lemma pieces_gap:
  "pieces t ls \<Longrightarrow> list_all py_isspace g \<Longrightarrow> pieces (t @ g) ls"
proof (induction ls arbitrary: t)
  case Nil
  then show ?case by simp
next
  case (Cons x ls)
  from Cons.prems(1) obtain g0 t' where g: "t = g0 @ x @ t'" "list_all py_isspace g0" "pieces t' ls"
    unfolding pieces_Cons_iff by blast
  from Cons.IH [OF g(3) Cons.prems(2)] have "pieces (t' @ g) ls" .
  with g(2) have "pieces (g0 @ x @ (t' @ g)) (x # ls)" unfolding pieces_Cons_iff by blast
  then show ?case by (simp add: g(1))
qed

lemma wrap_line_pieces:
  assumes "wrap_line width started chunks = (cl, rest)" and "chunks \<noteq> []" and "0 < width"
  shows "\<exists>g1 g2. list_all py_isspace g1 \<and> list_all py_isspace g2
           \<and> concat chunks = g1 @ concat cl @ g2 @ concat rest"
proof -
  define chunks1 where "chunks1 = (if list_all py_isspace (hd chunks) \<and> started then tl chunks else chunks)"
  obtain c1 n chunks2 where f: "fill_line width [] 0 chunks1 = (c1, n, chunks2)"
    by (cases "fill_line width [] 0 chunks1") auto
  from fill_line_sum [OF f] have fs: "sum_list (map length c1) = n" "n \<le> width"
    "concat c1 @ concat chunks2 = concat chunks1" by auto
  define p where "p = (if chunks2 \<noteq> [] \<and> length (hd chunks2) > width
              then handle_long_word chunks2 c1 n width else (c1, chunks2))"
  obtain c2 chunks3 where p: "p = (c2, chunks3)" by (cases p) auto
  have ps: "concat c2 @ concat chunks3 = concat c1 @ concat chunks2"
  proof (cases "chunks2 \<noteq> [] \<and> length (hd chunks2) > width")
    case True
    with p have "handle_long_word chunks2 c1 n width = (c2, chunks3)" by (simp add: p_def)
    from handle_long_word_sum [OF this _ fs(1) fs(2) assms(3)] True show ?thesis by simp
  next
    case False
    with p fs show ?thesis by (auto simp: p_def)
  qed
  define c3 where "c3 = (if c2 \<noteq> [] \<and> list_all py_isspace (last c2) then butlast c2 else c2)"
  have res: "cl = c3" "rest = chunks3"
    using assms(1) by (simp_all add: wrap_line_def Let_def chunks1_def [symmetric] f p_def [symmetric] p c3_def)
  obtain g1 where g1: "list_all py_isspace g1" "concat chunks = g1 @ concat chunks1"
  proof (cases "list_all py_isspace (hd chunks) \<and> started")
    case True
    with assms(2) have "list_all py_isspace (hd chunks)" "concat chunks = hd chunks @ concat chunks1"
      by (cases chunks; simp add: chunks1_def)+
    then show ?thesis by (rule that)
  next
    case False
    then have "list_all py_isspace []" "concat chunks = [] @ concat chunks1"
      by (auto simp: chunks1_def)
    then show ?thesis by (rule that)
  qed
  obtain g2 where g2: "list_all py_isspace g2" "concat c2 = concat c3 @ g2"
  proof (cases "c2 \<noteq> [] \<and> list_all py_isspace (last c2)")
    case True
    then have "list_all py_isspace (last c2)" "concat c2 = concat c3 @ last c2"
      by (cases c2 rule: rev_cases; simp add: c3_def)+
    then show ?thesis by (rule that)
  next
    case False
    then have "list_all py_isspace []" "concat c2 = concat c3 @ []"
      by (auto simp: c3_def)
    then show ?thesis by (rule that)
  qed
  have "concat chunks = g1 @ concat c3 @ g2 @ concat chunks3"
    using g1(2) g2(2) ps fs(3) by (metis append_assoc)
  with g1(1) g2(1) res show ?thesis by blast
qed

lemma wrap_chunks_pieces:
  "0 < width \<Longrightarrow> pieces t lines \<Longrightarrow> pieces (t @ concat chunks) (wrap_chunks width lines chunks)"
proof (induction width lines chunks arbitrary: t rule: wrap_chunks.induct)
  case (1 width lines chunks)
  show ?case
  proof (cases "chunks = []")
    case True
    with "1.prems" show ?thesis by (subst wrap_chunks.simps) simp
  next
    case False
    obtain cl rest where w: "wrap_line width (lines \<noteq> []) chunks = (cl, rest)"
      by (cases "wrap_line width (lines \<noteq> []) chunks") auto
    define lines' where "lines' = (if cl \<noteq> [] then lines @ [concat cl] else lines)"
    have nz: "\<not> (chunks = [] \<or> width = 0)" using False "1.prems"(1) by simp
    from wrap_line_pieces [OF w False "1.prems"(1)]
    obtain g1 g2 where g: "list_all py_isspace g1" "list_all py_isspace g2"
        "concat chunks = g1 @ concat cl @ g2 @ concat rest" by blast
    have same: "wrap_chunks width lines chunks = wrap_chunks width lines' rest"
      using nz w by (subst wrap_chunks.simps) (simp add: lines'_def)
    have p': "pieces (t @ g1 @ concat cl @ g2) lines'"
    proof (cases "cl \<noteq> []")
      case True
      with pieces_snoc [OF "1.prems"(2) g(1) g(2)] show ?thesis by (simp add: lines'_def)
    next
      case False
      from g(1) g(2) have "list_all py_isspace (g1 @ g2)" by simp
      from pieces_gap [OF "1.prems"(2) this] False show ?thesis by (simp add: lines'_def)
    qed
    have "pieces ((t @ g1 @ concat cl @ g2) @ concat rest) (wrap_chunks width lines' rest)"
      unfolding lines'_def
      by (rule "1.IH" [OF nz w [symmetric] "1.prems"(1)]) (use p' in \<open>simp only: lines'_def\<close>)
    then show ?thesis by (simp add: same g(3))
  qed
qed

lemma textwrap_wrap_pieces:
  "0 < width \<Longrightarrow> pieces (munge_whitespace text) (textwrap_wrap text width)"
  using wrap_chunks_pieces [of width "[]" "[]" "split_chunks (munge_whitespace text)"]
  by (simp add: textwrap_wrap_def concat_split_chunks)

lemma strip_all_space: "list_all py_isspace s \<Longrightarrow> str_strip s = []"
proof -
  assume "list_all py_isspace s"
  then have d: "dropWhile py_isspace s = []" by (induction s) auto
  show ?thesis unfolding str_strip_def d by simp
qed

lemma strip_between:
  assumes "list_all py_isspace g" "list_all py_isspace g'"
  shows "length (str_strip (g @ l @ g')) \<le> length l"
proof (cases "list_all py_isspace l")
  case True
  with assms have "list_all py_isspace (g @ l @ g')" by simp
  then show ?thesis by (simp add: strip_all_space)
next
  case False
  then obtain x where x: "x \<in> set l" "\<not> py_isspace x" by (auto simp: list_all_iff)
  have 1: "dropWhile py_isspace (g @ l @ g') = dropWhile py_isspace (l @ g')"
    using assms(1) by (intro dropWhile_append2) (auto simp: list_all_iff)
  have 2: "dropWhile py_isspace (l @ g') = dropWhile py_isspace l @ g'"
    using x by (intro dropWhile_append1) auto
  have 3: "dropWhile py_isspace (rev g' @ rev (dropWhile py_isspace l))
        = dropWhile py_isspace (rev (dropWhile py_isspace l))"
    using assms(2) by (intro dropWhile_append2) (auto simp: list_all_iff)
  have "length (str_strip (g @ l @ g')) = length (dropWhile py_isspace (rev (dropWhile py_isspace l)))"
    by (simp add: str_strip_def 1 2 3)
  also have "\<dots> \<le> length (rev (dropWhile py_isspace l))" by (rule length_dropWhile_le)
  also have "\<dots> \<le> length l" by (simp add: length_dropWhile_le)
  finally show ?thesis .
qed

lemma length_expandtabs: "0 < tabsize \<Longrightarrow> length s \<le> length (expandtabs tabsize col s)"
proof (induction s arbitrary: col)
  case Nil
  show ?case by simp
next
  case (Cons c s)
  show ?case
  proof (cases "c = CHR 0x09")
    case True
    have "col mod tabsize < tabsize" using Cons.prems by simp
    then have k: "1 \<le> tabsize - col mod tabsize" by simp
    have "length s \<le> length (expandtabs tabsize (col + (tabsize - col mod tabsize)) s)"
      by (rule Cons.IH [OF Cons.prems])
    with k have "1 + length s \<le> (tabsize - col mod tabsize)
        + length (expandtabs tabsize (col + (tabsize - col mod tabsize)) s)"
      by (rule add_mono)
    with True Cons.prems show ?thesis by simp
  next
    case False
    with Cons.IH [OF Cons.prems, of "if c = CHR 0x0A \<or> c = CHR 0x0D then 0 else col + 1"]
    show ?thesis by simp
  qed
qed

lemma expandtabs_append:
  "\<exists>col'. expandtabs tabsize col (x @ y) = expandtabs tabsize col x @ expandtabs tabsize col' y"
proof (induction x arbitrary: col)
  case Nil
  show ?case by auto
next
  case (Cons c x)
  show ?case
  proof (cases "c = CHR 0x09")
    case True
    show ?thesis
    proof (cases "tabsize > 0")
      case t: True
      from Cons [of "col + (tabsize - col mod tabsize)"] True t show ?thesis by auto
    next
      case f: False
      from Cons [of col] True f show ?thesis by auto
    qed
  next
    case False
    from Cons [of "if c = CHR 0x0A \<or> c = CHR 0x0D then 0 else col + 1"] False show ?thesis by auto
  qed
qed

lemma munge_whitespace_munge: "munge_whitespace s = munge_from 0 s"
  by (simp add: munge_whitespace_def munge_from_def)

lemma not_space_not_ascii: "\<not> py_isspace c \<Longrightarrow> \<not> ascii_whitespace c \<and> c \<noteq> CHR 0x09"
  using ascii_whitespace_isspace isspace_tab by blast

lemma munge_space: "py_isspace c \<Longrightarrow> list_all py_isspace (munge_from col [c])"
  by (auto simp: munge_from_def isspace_space list_all_iff)

lemma munge_char: "\<not> py_isspace c \<Longrightarrow> munge_from col (c # s) = c # munge_from (Suc col) s"
  by (frule not_space_not_ascii) (auto simp: munge_from_def ascii_whitespace_def)

lemma munge_append: "\<exists>col'. munge_from col (x @ y) = munge_from col x @ munge_from col' y"
  using expandtabs_append [of 8 col x y] by (auto simp: munge_from_def)

lemma length_munge: "length s \<le> length (munge_from col s)"
  by (simp add: munge_from_def length_expandtabs)

lemma dropWhile_munge:
  "\<exists>col'. dropWhile py_isspace (munge_from col s) = munge_from col' (dropWhile py_isspace s)"
proof (induction s arbitrary: col)
  case Nil
  show ?case by (simp add: munge_from_def)
next
  case (Cons c s)
  show ?case
  proof (cases "py_isspace c")
    case True
    from munge_append [of col "[c]" s] obtain col1 where a: "munge_from col (c # s) = munge_from col [c] @ munge_from col1 s"
      by auto
    have "dropWhile py_isspace (munge_from col [c] @ munge_from col1 s) = dropWhile py_isspace (munge_from col1 s)"
      using munge_space [OF True, of col] by (intro dropWhile_append2) (auto simp: list_all_iff)
    with Cons [of col1] a True show ?thesis by auto
  next
    case False
    then have "dropWhile py_isspace (munge_from col (c # s)) = munge_from col (dropWhile py_isspace (c # s))"
      by (simp add: munge_char)
    then show ?thesis by blast
  qed
qed

lemma dropWhile_rev_munge:
  "length (dropWhile py_isspace (rev s)) \<le> length (dropWhile py_isspace (rev (munge_from col s)))"
proof (induction s arbitrary: col rule: rev_induct)
  case Nil
  show ?case by simp
next
  case (snoc c s)
  from munge_append [of col s "[c]"] obtain col1 where a: "munge_from col (s @ [c]) = munge_from col s @ munge_from col1 [c]"
    by auto
  show ?case
  proof (cases "py_isspace c")
    case True
    have "dropWhile py_isspace (rev (munge_from col1 [c]) @ rev (munge_from col s))
        = dropWhile py_isspace (rev (munge_from col s))"
      using munge_space [OF True, of col1] by (intro dropWhile_append2) (auto simp: list_all_iff)
    with snoc [of col] True show ?thesis by (simp add: a)
  next
    case False
    have "munge_from col1 [c] = [c]" using munge_char [OF False, of col1 "[]"] by (simp add: munge_from_def)
    with False length_munge [of s col] show ?thesis by (simp add: a)
  qed
qed

lemma strip_munge: "length (str_strip s) \<le> length (str_strip (munge_whitespace s))"
proof -
  from dropWhile_munge [of 0 s] obtain col'
    where "dropWhile py_isspace (munge_from 0 s) = munge_from col' (dropWhile py_isspace s)" by blast
  then show ?thesis
    using dropWhile_rev_munge [of "dropWhile py_isspace s" col']
    by (simp add: str_strip_def munge_whitespace_munge)
qed

subsection \<open>Auxiliary facts about the reports\<close>

lemma textwrap_wrap_contract: "textwrap_contract textwrap_wrap"
  unfolding textwrap_contract_def
proof (intro allI impI conjI ballI)
  fix t :: string and width :: nat and l
  assume w: "0 < width"
  { assume "l \<in> set (textwrap_wrap t width)"
    then show "length l \<le> width" using w by (rule textwrap_wrap_width [rotated]) }
  { assume "l \<in> set (textwrap_wrap t width)"
    then show "CHR 0x0A \<notin> set l" using w by (rule textwrap_wrap_newline [rotated]) }
  show "pieces (munge_whitespace t) (textwrap_wrap t width)"
    using w by (rule textwrap_wrap_pieces)
qed

lemma textwrap_contract_line:
  "textwrap_contract wrap \<Longrightarrow> 0 < n \<Longrightarrow> l \<in> set (wrap t n) \<Longrightarrow>
     length l \<le> n \<and> CHR 0x0A \<notin> set l"
  unfolding textwrap_contract_def by blast

lemma textwrap_contract_pieces:
  "textwrap_contract wrap \<Longrightarrow> 0 < n \<Longrightarrow> pieces (munge_whitespace t) (wrap t n)"
  unfolding textwrap_contract_def by blast

lemma textwrap_contract_long:
  assumes "textwrap_contract wrap" and "0 < n" and "n < length (str_strip t)"
  shows "1 < length (wrap t n)"
proof (rule ccontr)
  assume "\<not> 1 < length (wrap t n)"
  then consider "wrap t n = []" | l where "wrap t n = [l]"
    by (cases "wrap t n"; cases "tl (wrap t n)") auto
  then have "length (str_strip (munge_whitespace t)) \<le> n"
  proof cases
    case 1
    with textwrap_contract_pieces [OF assms(1,2), of t]
    have "list_all py_isspace (munge_whitespace t)" by simp
    then show ?thesis by (simp add: strip_all_space)
  next
    case 2
    with textwrap_contract_pieces [OF assms(1,2), of t]
    have "pieces (munge_whitespace t) [l]" by simp
    then have "\<exists>g g'. munge_whitespace t = g @ l @ g' \<and> list_all py_isspace g \<and> pieces g' []"
      by (simp only: pieces_Cons_iff)
    then obtain g g' where g: "munge_whitespace t = g @ l @ g'" "list_all py_isspace g" "list_all py_isspace g'"
      by auto
    have "length l \<le> n"
      using textwrap_contract_line [OF assms(1,2), of l t] 2 by simp
    with strip_between [OF g(2,3), of l] show ?thesis by (simp add: g(1))
  qed
  with strip_munge [of t] assms(3) show False by simp
qed

lemma length_str_center: "length (str_center n s) = max n (length s)"
  by (auto simp: str_center_def Let_def elim!: oddE)

lemma set_str_center: "set (str_center n s) \<subseteq> insert (CHR '' '') (set s)"
  by (auto simp: str_center_def Let_def)

lemma length_str_ljust: "length (str_ljust n s) = max n (length s)"
  by (simp add: str_ljust_def)

lemma set_str_ljust: "set (str_ljust n s) \<subseteq> insert (CHR '' '') (set s)"
  by (auto simp: str_ljust_def)

lemma border_ok: "line_ok border"
  by (simp add: line_ok_def border_def canvas_width_def)

lemma center_line_ok:
  "length t \<le> 68 \<Longrightarrow> CHR 0x0A \<notin> set t \<Longrightarrow> line_ok (center_line t)"
  using set_str_center [of 68 t]
  by (auto simp: line_ok_def center_line_def canvas_width_def length_str_center)

lemma padded_ok:
  assumes "length p + n = 67" "length l \<le> n" "CHR 0x0A \<notin> set l" "CHR 0x0A \<notin> set p"
  shows "line_ok (''| '' @ p @ str_ljust n l @ ''|'')"
  using assms set_str_ljust [of n l]
  by (auto simp: line_ok_def length_str_ljust)

lemma wrap_block_ok:
  assumes "textwrap_contract wrap"
  shows "\<exists>ls. wrap_block wrap t = Inr ls \<and> ls \<noteq> [] \<and> (\<forall>l \<in> set ls. line_ok l)
     \<and> length ls = max 1 (length (wrap t 66))"
proof -
  from assms have b: "\<forall>l \<in> set (wrap t 66). length l \<le> 66 \<and> CHR 0x0A \<notin> set l"
    by (auto dest: textwrap_contract_line [of wrap 66 _ t])
  define wrapped where "wrapped = (if wrap t 66 = [] then [''''] else wrap t 66)"
  have w: "\<forall>l \<in> set wrapped. length l \<le> 66 \<and> CHR 0x0A \<notin> set l" "wrapped \<noteq> []"
    using b by (auto simp: wrapped_def)
  have e: "wrap_block wrap t = Inr (map (\<lambda>line. ''| '' @ str_ljust 66 line @ '' |'') wrapped)"
    by (simp add: wrap_block_def textwrap_call_def canvas_width_def wrapped_def)
  have "line_ok (''| '' @ str_ljust 66 l @ '' |'')" if "l \<in> set wrapped" for l
    using w(1) that set_str_ljust [of 66 l] by (auto simp: line_ok_def length_str_ljust)
  moreover have "length wrapped = max 1 (length (wrap t 66))"
    by (cases "wrap t 66") (auto simp: wrapped_def)
  ultimately show ?thesis using e w(2) by auto
qed

lemma wrap_lines_ok:
  assumes "textwrap_contract wrap" and "length prefix \<le> 66" and "CHR 0x0A \<notin> set prefix"
  shows "\<exists>ls. wrap_lines wrap prefix (Some c) = Inr ls \<and> ls \<noteq> [] \<and> (\<forall>l \<in> set ls. line_ok l)"
proof -
  define n where "n = 67 - length prefix"
  have n: "0 < n" "length prefix + n = 67" "canvas_width - (length prefix + 3) = n"
    "int canvas_width - int (length prefix) - 3 = int n"
    using assms(2) by (auto simp: n_def canvas_width_def)
  from assms(1) n(1) have b: "\<forall>l \<in> set (wrap c n). length l \<le> n \<and> CHR 0x0A \<notin> set l"
    by (auto dest: textwrap_contract_line [of wrap n _ c])
  define wrapped where "wrapped = (if wrap c n = [] then [''''] else wrap c n)"
  have w: "\<forall>l \<in> set wrapped. length l \<le> n \<and> CHR 0x0A \<notin> set l" "wrapped \<noteq> []"
    using b by (auto simp: wrapped_def)
  then obtain h t where ht: "wrapped = h # t" by (cases wrapped) auto
  have e: "wrap_lines wrap prefix (Some c) =
      Inr ([''| '' @ prefix @ str_ljust n h @ ''|'']
           @ map (\<lambda>line. ''| '' @ replicate (length prefix) (CHR '' '') @ str_ljust n line @ ''|'') t)"
    using n(1) by (simp add: wrap_lines_def textwrap_call_def n(3) n(4) Let_def wrapped_def [symmetric] ht)
  have first: "line_ok (''| '' @ prefix @ str_ljust n h @ ''|'')"
    using w(1) ht n(2) assms(3) by (intro padded_ok) auto
  have others: "line_ok (''| '' @ replicate (length prefix) (CHR '' '') @ str_ljust n l @ ''|'')"
    if "l \<in> set t" for l
    using w(1) ht n(2) that by (intro padded_ok) auto
  show ?thesis using e first others by auto
qed

lemma canvas_result_lines_ok:
  assumes "textwrap_contract wrap" and "length (d_name d) \<le> 59" and "CHR 0x0A \<notin> set (d_name d)"
    and "d_url d \<noteq> Some None"
  shows "\<exists>ls. canvas_result_lines wrap d = Inr ls \<and> (\<forall>l \<in> set ls. line_ok l) \<and> ls \<noteq> [] \<and> last ls = border"
proof -
  obtain u where u: "result_get_url d = Some u"
    using assms(4) by (cases "d_url d") (auto simp: result_get_url_def)
  obtain detail where d: "wrap_lines wrap ''Detail: '' (Some (d_details d)) = Inr detail"
    "\<forall>l \<in> set detail. line_ok l"
    using wrap_lines_ok [OF assms(1), of "''Detail: ''" "d_details d"] by auto
  obtain link where l: "wrap_lines wrap ''Link: '' (Some u) = Inr link" "\<forall>l \<in> set link. line_ok l"
    using wrap_lines_ok [OF assms(1), of "''Link: ''" u] by auto
  have st: "length (canvas_status d) = 4" "CHR 0x0A \<notin> set (canvas_status d)"
    by (auto simp: canvas_status_def)
  have "line_ok (center_line (canvas_status d @ '' '' @ [CHR 0xE2, CHR 0x80, CHR 0xA2] @ '' '' @ d_name d))"
    using assms(2,3) st by (intro center_line_ok) auto
  then show ?thesis
    using d l u border_ok by (auto simp: canvas_result_lines_def)
qed

lemma canvas_results_ok:
  assumes "textwrap_contract wrap"
  shows "\<forall>d \<in> set ds. length (d_name d) \<le> 59 \<and> CHR 0x0A \<notin> set (d_name d) \<and> d_url d \<noteq> Some None \<Longrightarrow>
     \<exists>ls. canvas_results wrap ds canvas = Inr (canvas @ ls) \<and> (\<forall>l \<in> set ls. line_ok l)
        \<and> (ls \<noteq> [] \<longrightarrow> last ls = border)"
proof (induction ds arbitrary: canvas)
  case Nil
  then show ?case by simp
next
  case (Cons d ds)
  from Cons.prems obtain ls1 where 1: "canvas_result_lines wrap d = Inr ls1"
      "\<forall>l \<in> set ls1. line_ok l" "ls1 \<noteq> []" "last ls1 = border"
    using canvas_result_lines_ok [OF assms, of d] by auto
  from Cons.prems Cons.IH [of "canvas @ ls1"]
  obtain ls2 where 2: "canvas_results wrap ds (canvas @ ls1) = Inr ((canvas @ ls1) @ ls2)"
      "\<forall>l \<in> set ls2. line_ok l" "ls2 \<noteq> [] \<longrightarrow> last ls2 = border"
    by auto
  have "canvas_results wrap (d # ds) canvas = Inr (canvas @ (ls1 @ ls2))"
    using 1(1) 2(1) by simp
  moreover have "\<forall>l \<in> set (ls1 @ ls2). line_ok l" using 1(2) 2(2) by auto
  moreover have "last (ls1 @ ls2) = border" using 1(3,4) 2(3) by (cases "ls2 = []") auto
  ultimately show ?case using 1(3) by blast
qed

lemma canvas_header_ok:
  assumes "textwrap_contract wrap" and "length (i_name (o_bundle_info out)) \<le> 55"
    and "CHR 0x0A \<notin> set (i_name (o_bundle_info out))"
  shows "\<exists>block rest. wrap_block wrap (i_description (o_bundle_info out)) = Inr block
      \<and> canvas_header wrap rt out
          = Inr ([border, center_line (''Test Canvas: '' @ i_name (o_bundle_info out))] @ block @ rest)
      \<and> (\<forall>l \<in> set block. line_ok l) \<and> (\<forall>l \<in> set rest. line_ok l)
      \<and> rest \<noteq> [] \<and> last rest = border
      \<and> length block = max 1 (length (wrap (i_description (o_bundle_info out)) 66))"
proof -
  obtain block where b: "wrap_block wrap (i_description (o_bundle_info out)) = Inr block"
    "\<forall>l \<in> set block. line_ok l" "length block = max 1 (length (wrap (i_description (o_bundle_info out)) 66))"
    using wrap_block_ok [OF assms(1), of "i_description (o_bundle_info out)"] by auto
  define stext where "stext = ''Total='' @ str_int (total_tests (o_statistics out))
                            @ '' Passed='' @ str_int (passed (o_statistics out))
                            @ '' Failed='' @ str_int (failed (o_statistics out))
                            @ '' Skipped='' @ str_int (skipped (o_statistics out))
                            @ '' PassRate='' @ str_num rt (pass_rate (o_statistics out)) @ ''%''"
  define dtext where "dtext = ''Bundle execution '' @ float_str rt (execution_time_seconds (o_statistics out))
                                 @ ''s / '' @ str_int (total_duration_ms (o_statistics out)) @ ''ms cumulative''"
  obtain summary where s: "wrap_lines wrap ''Summary: '' (Some stext) = Inr summary"
    "\<forall>l \<in> set summary. line_ok l"
    using wrap_lines_ok [OF assms(1), of "''Summary: ''" stext] by auto
  obtain duration where d: "wrap_lines wrap ''Duration: '' (Some dtext) = Inr duration"
    "\<forall>l \<in> set duration. line_ok l"
    using wrap_lines_ok [OF assms(1), of "''Duration: ''" dtext] by auto
  have h: "canvas_header wrap rt out
      = Inr ([border, center_line (''Test Canvas: '' @ i_name (o_bundle_info out))] @ block
             @ ([border] @ summary @ duration @ [border]))"
    using b(1) s(1) d(1) by (simp add: canvas_header_def Let_def stext_def dtext_def)
  have "\<forall>l \<in> set ([border] @ summary @ duration @ [border]). line_ok l"
    using s(2) d(2) border_ok by auto
  with h b show ?thesis by (intro exI [of _ block] exI [of _ "[border] @ summary @ duration @ [border]"]) simp
qed

lemma str_split_notin: "sep \<notin> set x \<Longrightarrow> str_split sep x = [x]"
  by (induction x) auto

lemma str_split_append: "sep \<notin> set x \<Longrightarrow> str_split sep (x @ sep # s) = x # str_split sep s"
  by (induction x) auto

lemma str_split_join:
  "ls \<noteq> [] \<Longrightarrow> \<forall>l \<in> set ls. sep \<notin> set l \<Longrightarrow> str_split sep (str_join [sep] ls) = ls"
proof (induction ls)
  case Nil
  then show ?case by simp
next
  case (Cons x ls)
  show ?case
  proof (cases ls)
    case Nil
    with Cons.prems show ?thesis by (simp add: str_join_def str_split_notin)
  next
    case (Cons y ys)
    with Cons.IH Cons.prems have "str_split sep (str_join [sep] ls) = ls" by simp
    moreover have "str_join [sep] (x # ls) = x @ sep # str_join [sep] ls"
      using Cons by (simp add: str_join_def)
    ultimately show ?thesis using Cons.prems by (simp add: str_split_append)
  qed
qed

lemma sample_outcome_names:
  "length (i_name (o_bundle_info sample_outcome)) \<le> 55"
  "CHR 0x0A \<notin> set (i_name (o_bundle_info sample_outcome))"
  "\<forall>d \<in> set (o_results sample_outcome).
      length (d_name d) \<le> 59 \<and> CHR 0x0A \<notin> set (d_name d) \<and> d_url d \<noteq> Some None"
  by (simp_all add: sample_outcome_def to_dict_def passing_def check_a_def skipped_result_def)

lemma api_outcome_names:
  "length (i_name (o_bundle_info api_outcome)) \<le> 55"
  "CHR 0x0A \<notin> set (i_name (o_bundle_info api_outcome))"
  "\<forall>d \<in> set (o_results api_outcome).
      length (d_name d) \<le> 59 \<and> CHR 0x0A \<notin> set (d_name d) \<and> d_url d \<noteq> Some None"
  by (simp_all add: api_outcome_def sample_outcome_def to_dict_def passing_def check_a_def
      skipped_result_def)

lemma api_outcome_description:
  "i_description (o_bundle_info api_outcome)
     = ''Monitor API endpoint availability, response times, and status codes''"
  "length (i_description (o_bundle_info api_outcome)) = 67"
  "66 < length (str_strip (i_description (o_bundle_info api_outcome)))"
  by (simp_all add: api_outcome_def str_strip_def py_isspace_def)

lemma canvas_results_raises:
  "d \<in> set ds \<Longrightarrow> d_url d = Some None \<Longrightarrow> \<exists>e. canvas_results wrap ds canvas = Inl e"
proof (induction ds arbitrary: canvas)
  case Nil
  then show ?case by simp
next
  case (Cons x ds)
  show ?case
  proof (cases "canvas_result_lines wrap x")
    case (Inl e)
    then show ?thesis by simp
  next
    case (Inr ls)
    have "x \<noteq> d"
    proof
      assume "x = d"
      with Cons.prems(2) have "result_get_url x = None" by (simp add: result_get_url_def)
      then have "\<exists>e. canvas_result_lines wrap x = Inl e"
        by (simp add: canvas_result_lines_def wrap_lines_def textwrap_call_def split: sum.splits)
      with Inr show False by simp
    qed
    with Cons.prems have "d \<in> set ds" by simp
    from Cons.IH [OF this Cons.prems(2)] Inr show ?thesis by simp
  qed
qed










subsection \<open>Results of a run\<close>




subsection \<open>A failing test case\<close>




subsection \<open>Errors of a run\<close>




subsection \<open>Statistics\<close>

text \<open>
  Claim C4, as the code has it. \<^verbatim>\<open>total_tests\<close> is the length of the list;
  \<^verbatim>\<open>passed + failed + skipped\<close> is the total minus the number of results whose status is
  \<open>PENDING\<close> or \<open>RUNNING\<close>, hence equal to the total exactly when no result has one of
  these two statuses; the pass rate is the integer 0 for the empty list and otherwise
  \<^verbatim>\<open>round(passed / total * 100, 2)\<close>; the total duration is the sum of the durations.
\<close>

theorem statistics_summary:
  "total_tests (calculate_statistics rt rs t) = int (length rs)
   \<and> passed (calculate_statistics rt rs t) + failed (calculate_statistics rt rs t)
       + skipped (calculate_statistics rt rs t)
       = total_tests (calculate_statistics rt rs t)
         - int (length (filter (\<lambda>r. status r = PENDING \<or> status r = RUNNING) rs))
   \<and> (rs = [] \<longrightarrow> pass_rate (calculate_statistics rt rs t) = PyInt 0)
   \<and> (rs \<noteq> [] \<longrightarrow> pass_rate (calculate_statistics rt rs t) =
         PyFloat (round2 rt (float_mul_int rt
            (int_truediv rt (passed (calculate_statistics rt rs t))
                            (total_tests (calculate_statistics rt rs t))) 100)))
   \<and> total_duration_ms (calculate_statistics rt rs t) = (\<Sum>r\<leftarrow>rs. duration_ms r)"
proof -
  have "int (length (filter (\<lambda>r. status r = PENDING \<or> status r = RUNNING) rs))
          = count_status PENDING rs + count_status RUNNING rs"
    by (induction rs) (auto simp: count_status_Cons count_status_Nil)
  with count_status_total [of rs]
  have "count_status PASSED rs + count_status FAILED rs + count_status SKIPPED rs
          = int (length rs) - int (length (filter (\<lambda>r. status r = PENDING \<or> status r = RUNNING) rs))"
    by linarith
  then show ?thesis
    by (simp add: calculate_statistics_def py_round2_def Let_def)
qed

theorem statistics_summary_witness:
  "passed (calculate_statistics demo_runtime [passing check_a 0, error_result check_b ''boom'' ''T1''] 3)
     + failed (calculate_statistics demo_runtime [passing check_a 0, error_result check_b ''boom'' ''T1''] 3)
     + skipped (calculate_statistics demo_runtime [passing check_a 0, error_result check_b ''boom'' ''T1''] 3) = 2
   \<and> pass_rate (calculate_statistics demo_runtime [passing check_a 0, error_result check_b ''boom'' ''T1''] 3) = PyFloat 50
   \<and> pass_rate (calculate_statistics demo_runtime [] 3) = PyInt 0
   \<and> total_duration_ms (calculate_statistics demo_runtime [passing check_a 0, error_result check_b ''boom'' ''T1''] 3) = 1000"
  using statistics_summary [of demo_runtime "[passing check_a 0, error_result check_b ''boom'' ''T1'']" 3]
    statistics_summary [of demo_runtime "[]" 3]
  by (simp add: passing_def error_result_def demo_runtime_def calculate_statistics_def
      py_round2_def count_status_def)

text \<open>A single result that is still pending is counted in the total and in none of the three counters.\<close>

theorem statistics_counts_counterexample:
  "passed (calculate_statistics demo_runtime [pending_result] 0)
     + failed (calculate_statistics demo_runtime [pending_result] 0)
     + skipped (calculate_statistics demo_runtime [pending_result] 0) = 0
   \<and> total_tests (calculate_statistics demo_runtime [pending_result] 0) = 1"
  by (simp add: calculate_statistics_def count_status_def pending_result_def)

subsection \<open>Timeouts\<close>

text \<open>
  Claim C5, as the code has it. \<^verbatim>\<open>execute_bundle\<close> does not enforce
  \<^verbatim>\<open>timeout_seconds\<close>: a result that the executor returns is appended as it is, however
  long the call took; a call that never completes makes the whole run never complete; and
  the results do not depend on the \<^verbatim>\<open>timeout_seconds\<close> of the cases, unless the executor
  itself reads it.
\<close>

theorem timeout_not_enforced:
  "(execute_test b tc cfg w = Returned r w' \<longrightarrow>
      execute_cases rt b cfg (tc # rest) acc w = execute_cases rt b cfg rest (acc @ [r]) w')
   \<and> (execute_test b tc cfg w = Never \<longrightarrow> execute_cases rt b cfg (tc # rest) acc w = None)
   \<and> ((\<forall>tc w. execute_test b (tc\<lparr>timeout_seconds := t\<rparr>) cfg w = execute_test b tc cfg w) \<longrightarrow>
        execute_bundle rt (b\<lparr>get_test_cases := map (\<lambda>tc. tc\<lparr>timeout_seconds := t\<rparr>) (get_test_cases b)\<rparr>) cfg w
          = execute_bundle rt b cfg w)"
proof -
  have "execute_cases rt (b\<lparr>get_test_cases := cs\<rparr>) cfg cases acc w0
          = execute_cases rt b cfg cases acc w0" for cs cases acc w0
    by (induction cases arbitrary: acc w0) (simp_all split: awaited.splits prod.splits)
  then show ?thesis
    by (auto simp: execute_bundle_def execute_cases_timeout)
qed

theorem timeout_not_enforced_witness:
  "execute_cases demo_runtime slow_bundle Map.empty [check_a, check_b] [] 0
      = execute_cases demo_runtime slow_bundle Map.empty [check_b] [fresh (passing check_a 0)] 100
   \<and> execute_cases demo_runtime slow_bundle Map.empty [check_b] [fresh (passing check_a 0)] 100 = None
   \<and> execute_bundle demo_runtime
        (sample_suite\<lparr>get_test_cases := map (\<lambda>tc. tc\<lparr>timeout_seconds := 1\<rparr>) (get_test_cases sample_suite)\<rparr>)
        sample_config 0
      = execute_bundle demo_runtime sample_suite sample_config 0"
proof -
  have a: "execute_test slow_bundle check_a Map.empty 0 = Returned (fresh (passing check_a 0)) 100"
    by (simp add: slow_bundle_def check_a_def)
  have b: "execute_test slow_bundle check_b Map.empty 100 = Never"
     by (simp add: slow_bundle_def check_b_def)
  have c: "\<forall>tc w. execute_test sample_suite (tc\<lparr>timeout_seconds := 1\<rparr>) sample_config w
      = execute_test sample_suite tc sample_config w"
    by (simp add: sample_suite_def passing_def)
  show ?thesis
    using timeout_not_enforced [of slow_bundle check_a Map.empty 0 "fresh (passing check_a 0)" 100 demo_runtime
         "[check_b]" "[]" 1]
      timeout_not_enforced [of slow_bundle check_b Map.empty 100 _ _ demo_runtime "[]" "[fresh (passing check_a 0)]" 1]
      timeout_not_enforced [of sample_suite _ sample_config 0 _ _ demo_runtime _ _ 1]
      a b c
    by simp
qed

text \<open>A check that takes 100 seconds against a timeout of 30 is recorded as passed, and a check that never completes hangs the run.\<close>

theorem timeout_not_enforced_counterexample:
  "timeout_seconds check_a = 30
   \<and> execute_test slow_bundle check_a Map.empty 0 = Returned (fresh (passing check_a 0)) 100
   \<and> execute_cases demo_runtime slow_bundle Map.empty [check_a] [] 0 = Some (Inr [fresh (passing check_a 0)], 100)
   \<and> status (passing check_a 0) = PASSED \<and> error_message (passing check_a 0) = None
   \<and> execute_test slow_bundle check_b Map.empty 100 = Never
   \<and> execute_bundle demo_runtime slow_bundle Map.empty 0 = None
   \<and> run_bundle demo_runtime demo_registry ''slow_suite'' Map.empty 0 = None"
  by (simp add: run_bundle_def get_slow execute_bundle_def slow_bundle_def check_a_def check_b_def
      passing_def validate_config_def demo_runtime_def)

subsection \<open>The canvas: width of the lines\<close>

text \<open>
  Claim C6, as the code has it. Let \<^verbatim>\<open>textwrap.wrap\<close> keep its contract, the bundle name
  have at most 55 characters, every result name at most 59, no name contain a newline, and
  every result carry a url. Then the canvas is produced, every line of the report has
  exactly 70 characters, the first and the last line are the border of 68 dashes between
  two \<^verbatim>\<open>+\<close>, the report starts with the border, the title and the description block, and a
  description that is longer than 66 characters once the whitespace at its two ends is
  stripped gives a block of more than one line. (\<^verbatim>\<open>str.center\<close> never shortens the title or a result's heading, so a longer
  name makes a longer line; a result without url is the subject of C7.)
\<close>

theorem canvas_report_lines:
  assumes "textwrap_contract wrap"
    and "length (i_name (o_bundle_info out)) \<le> 55"
    and "CHR 0x0A \<notin> set (i_name (o_bundle_info out))"
    and "\<forall>d \<in> set (o_results out).
           length (d_name d) \<le> 59 \<and> CHR 0x0A \<notin> set (d_name d) \<and> d_url d \<noteq> Some None"
  shows "\<exists>report block rest.
        generate_canvas_report wrap rt out = Inr report
      \<and> wrap_block wrap (i_description (o_bundle_info out)) = Inr block
      \<and> str_split (CHR 0x0A) report
          = [border, center_line (''Test Canvas: '' @ i_name (o_bundle_info out))] @ block @ rest
      \<and> (\<forall>l \<in> set (str_split (CHR 0x0A) report). length l = 70)
      \<and> hd (str_split (CHR 0x0A) report) = ''+'' @ replicate 68 (CHR ''-'') @ ''+''
      \<and> last (str_split (CHR 0x0A) report) = ''+'' @ replicate 68 (CHR ''-'') @ ''+''
      \<and> (66 < length (str_strip (i_description (o_bundle_info out))) \<longrightarrow> 1 < length block)"
proof -
  let ?title = "center_line (''Test Canvas: '' @ i_name (o_bundle_info out))"
  let ?desc = "i_description (o_bundle_info out)"
  from canvas_header_ok [OF assms(1,2,3), of rt]
  obtain block rest where h: "wrap_block wrap ?desc = Inr block"
      "canvas_header wrap rt out = Inr ([border, ?title] @ block @ rest)"
      "\<forall>l \<in> set block. line_ok l" "\<forall>l \<in> set rest. line_ok l" "rest \<noteq> []" "last rest = border"
      "length block = max 1 (length (wrap ?desc 66))"
    by blast
  from canvas_results_ok [OF assms(1) assms(4), of "[border, ?title] @ block @ rest"]
  obtain ls where r: "canvas_results wrap (o_results out) ([border, ?title] @ block @ rest)
        = Inr (([border, ?title] @ block @ rest) @ ls)"
      "\<forall>l \<in> set ls. line_ok l" "ls \<noteq> [] \<longrightarrow> last ls = border"
    by blast
  define lines where "lines = [border, ?title] @ block @ (rest @ ls)"
  have cl: "canvas_lines wrap rt out = Inr lines"
    using h(2) r(1) by (simp add: canvas_lines_def lines_def)
  have title: "line_ok ?title"
    using assms(2,3) by (intro center_line_ok) auto
  have ok: "\<forall>l \<in> set lines. line_ok l"
    using h(3,4) r(2) title border_ok by (auto simp: lines_def)
  have ne: "lines \<noteq> []" by (simp add: lines_def)
  have lastl: "last lines = border"
    using h(5,6) r(3) by (cases "ls = []") (auto simp: lines_def)
  have split: "str_split (CHR 0x0A) (str_join [CHR 0x0A] lines) = lines"
    using ne ok by (intro str_split_join) (auto simp: line_ok_def)
  have b: "border = ''+'' @ replicate 68 (CHR ''-'') @ ''+''"
    by (simp add: border_def canvas_width_def)
  have many: "1 < length block"
    if d: "66 < length (str_strip ?desc)"
  proof -
    have "1 < length (wrap ?desc 66)"
      using assms(1) _ d by (rule textwrap_contract_long) simp
    with h(7) show ?thesis by simp
  qed
  have "generate_canvas_report wrap rt out = Inr (str_join [CHR 0x0A] lines)"
    using cl by (simp add: generate_canvas_report_def)
  moreover have "str_split (CHR 0x0A) (str_join [CHR 0x0A] lines) = [border, ?title] @ block @ (rest @ ls)"
    using split by (simp add: lines_def)
  moreover have "\<forall>l \<in> set (str_split (CHR 0x0A) (str_join [CHR 0x0A] lines)). length l = 70"
    using ok split by (simp add: line_ok_def)
  moreover have "hd (str_split (CHR 0x0A) (str_join [CHR 0x0A] lines)) = ''+'' @ replicate 68 (CHR ''-'') @ ''+''"
    using split b by (simp add: lines_def)
  moreover have "last (str_split (CHR 0x0A) (str_join [CHR 0x0A] lines)) = ''+'' @ replicate 68 (CHR ''-'') @ ''+''"
    using split lastl b by simp
  ultimately show ?thesis using h(1) many by blast
qed

theorem canvas_report_lines_witness:
  "length ''Monitor API endpoint availability, response times, and status codes'' = 67
   \<and> (\<exists>report block rest.
        generate_canvas_report textwrap_wrap demo_runtime api_outcome = Inr report
      \<and> wrap_block textwrap_wrap ''Monitor API endpoint availability, response times, and status codes''
            = Inr block
      \<and> str_split (CHR 0x0A) report = [border, center_line ''Test Canvas: API Health Checks''] @ block @ rest
      \<and> list_all (\<lambda>l. length l = 70) (str_split (CHR 0x0A) report)
      \<and> hd (str_split (CHR 0x0A) report) = ''+'' @ replicate 68 (CHR ''-'') @ ''+''
      \<and> last (str_split (CHR 0x0A) report) = ''+'' @ replicate 68 (CHR ''-'') @ ''+''
      \<and> 1 < length block)"
proof -
  have n: "i_name (o_bundle_info api_outcome) = ''API Health Checks''"
    by (simp add: api_outcome_def)
  have "\<exists>report block rest.
        generate_canvas_report textwrap_wrap demo_runtime api_outcome = Inr report
      \<and> wrap_block textwrap_wrap ''Monitor API endpoint availability, response times, and status codes''
            = Inr block
      \<and> str_split (CHR 0x0A) report = [border, center_line ''Test Canvas: API Health Checks''] @ block @ rest
      \<and> list_all (\<lambda>l. length l = 70) (str_split (CHR 0x0A) report)
      \<and> hd (str_split (CHR 0x0A) report) = ''+'' @ replicate 68 (CHR ''-'') @ ''+''
      \<and> last (str_split (CHR 0x0A) report) = ''+'' @ replicate 68 (CHR ''-'') @ ''+''
      \<and> 1 < length block"
    using canvas_report_lines [OF textwrap_wrap_contract api_outcome_names, of demo_runtime]
      api_outcome_description(3)
    unfolding api_outcome_description(1)
    by (simp only: n list_all_iff append_Cons append_Nil) blast
  then show ?thesis by simp
qed

text \<open>
  A bundle name of 56 characters gives a title line of 71 characters; a description of 67
  characters, all but the first of them spaces, gives a block of one line, and so does one
  of 66 spaces followed by a letter.
\<close>

theorem canvas_report_lines_counterexample:
  "map_sum id (map length \<circ> str_split (CHR 0x0A))
      (generate_canvas_report textwrap_wrap demo_runtime
         (sample_outcome\<lparr>o_bundle_info := (o_bundle_info sample_outcome)\<lparr>i_name := replicate 56 (CHR ''N'')\<rparr>\<rparr>))
     = Inr [70, 71, 70, 70, 70, 70, 70, 70, 70, 70, 70, 70, 70, 70, 70, 70]
   \<and> length (''a'' @ replicate 66 (CHR '' '')) = 67
   \<and> map_sum id length (wrap_block textwrap_wrap (''a'' @ replicate 66 (CHR '' ''))) = Inr 1
   \<and> length (replicate 66 (CHR '' '') @ ''a'') = 67
   \<and> map_sum id length (wrap_block textwrap_wrap (replicate 66 (CHR '' '') @ ''a'')) = Inr 1"
  by code_simp

subsection \<open>The canvas: results without url\<close>

text \<open>
  Claim C7 fails on the code. \<^verbatim>\<open>to_dict\<close> always stores the key \<^verbatim>\<open>'url'\<close>, with
  \<^verbatim>\<open>None\<close> for a result without url (such as the one synthesised for a raised exception),
  so \<^verbatim>\<open>result.get('url', 'n/a')\<close> is \<^verbatim>\<open>None\<close> and \<^verbatim>\<open>textwrap.wrap\<close> raises: the canvas
  of an outcome with such a result is an exception, whatever the rest of the outcome is.
\<close>

theorem canvas_report_url_none:
  "d_url (to_dict (error_result test_case e ts)) = Some None
   \<and> (\<forall>d \<in> set (o_results out). d_url d = Some None \<longrightarrow>
         (\<exists>err. generate_canvas_report wrap rt out = Inl err))"
proof -
  have "\<exists>err. generate_canvas_report wrap rt out = Inl err"
    if "d \<in> set (o_results out)" "d_url d = Some None" for d
  proof (cases "canvas_header wrap rt out")
    case (Inl err)
    then show ?thesis by (simp add: generate_canvas_report_def canvas_lines_def)
  next
    case (Inr canvas)
    from canvas_results_raises [OF that, of wrap canvas] Inr show ?thesis
      by (auto simp: generate_canvas_report_def canvas_lines_def)
  qed
  then show ?thesis by (simp add: to_dict_def error_result_def)
qed

theorem canvas_report_url_none_witness:
  "generate_canvas_report textwrap_wrap demo_runtime failed_outcome
     = Inl (AttributeError ([CHR 0x27] @ ''NoneType'' @ [CHR 0x27] @ '' object has no attribute ''
                              @ [CHR 0x27] @ ''expandtabs'' @ [CHR 0x27]))"
proof -
  have m: "to_dict (error_result check_b ''boom'' ''T8'') \<in> set (o_results failed_outcome)"
    by (simp add: failed_outcome_def)
  have u: "d_url (to_dict (error_result check_b ''boom'' ''T8'')) = Some None"
    by (simp add: to_dict_def error_result_def)
  from canvas_report_url_none [of check_b "''boom''" "''T8''" failed_outcome textwrap_wrap demo_runtime] m u
  obtain err where e: "generate_canvas_report textwrap_wrap demo_runtime failed_outcome = Inl err"
    by blast
  have "isl (generate_canvas_report textwrap_wrap demo_runtime failed_outcome) \<longrightarrow>
      generate_canvas_report textwrap_wrap demo_runtime failed_outcome =
        Inl (AttributeError ([CHR 0x27] @ ''NoneType'' @ [CHR 0x27] @ '' object has no attribute ''
                              @ [CHR 0x27] @ ''expandtabs'' @ [CHR 0x27]))"
    by (auto simp: generate_canvas_report_def canvas_lines_def canvas_header_def failed_outcome_def
        sample_outcome_def wrap_block_def wrap_lines_def textwrap_call_def canvas_result_lines_def
        result_get_url_def to_dict_def error_result_def passing_def Let_def canvas_width_def
        split: sum.splits)
  with e show ?thesis by simp
qed

subsection \<open>Registering bundles\<close>

text \<open>
  Claim C8. \<^verbatim>\<open>register_bundle\<close> stores the bundle under its name, lower-cased and
  with every space replaced by an underscore; a second bundle whose name gives the same id
  replaces the first, and every other id is left as it was.
\<close>

theorem register_bundle_lookup:
  "get_bundle (register_bundle bundles b)
       (str_replace_char (CHR '' '') (CHR ''_'') (str_lower (b_name b))) = Some b
   \<and> (bundle_id_of (b_name b1) = bundle_id_of (b_name b2) \<longrightarrow>
        get_bundle (register_bundle (register_bundle bundles b1) b2) (bundle_id_of (b_name b1)) = Some b2)
   \<and> (k \<noteq> bundle_id_of (b_name b) \<longrightarrow> get_bundle (register_bundle bundles b) k = get_bundle bundles k)"
  by (simp add: register_bundle_def get_bundle_def bundle_id_of_def)

theorem register_bundle_lookup_witness:
  "bundle_id_of (b_name sample_suite) = ''sample_suite''
   \<and> bundle_id_of (b_name (sample_suite\<lparr>b_name := ''sample suite'', version := ''2.0.0''\<rparr>)) = ''sample_suite''
   \<and> get_bundle (register_bundle (register_bundle Map.empty sample_suite)
          (sample_suite\<lparr>b_name := ''sample suite'', version := ''2.0.0''\<rparr>)) ''sample_suite''
        = Some (sample_suite\<lparr>b_name := ''sample suite'', version := ''2.0.0''\<rparr>)
   \<and> get_bundle (register_bundle Map.empty sample_suite) ''other'' = None"
proof -
  have a: "bundle_id_of ''Sample Suite'' = ''sample_suite''" by code_simp
  have b: "bundle_id_of ''sample suite'' = ''sample_suite''" by code_simp
  have c: "get_bundle (Map.empty :: nat registry) ''other'' = None" by (simp add: get_bundle_def)
  show ?thesis
    using register_bundle_lookup [of Map.empty sample_suite sample_suite
        "sample_suite\<lparr>b_name := ''sample suite'', version := ''2.0.0''\<rparr>" "''other''"]
    by (simp add: a b c sample_suite_def)
qed

subsection \<open>Markers of the reports\<close>


end
